theory Spec2Isabelle
  imports Complex_Main "HOL-Library.Char_ord" "HOL-Library.List_Lexorder"
begin

section \<open>Python values\<close>

text \<open>
  Every datum the program handles comes out of \<^verbatim>\<open>json.loads\<close> or is a dict or list the
  program builds around such data, so one type of Python values serves the whole
  development. Integers and floats are kept apart (they print differently) but compare
  by value, as in Python; a finite float is represented by the rational it denotes.
  \<^verbatim>\<open>json.loads\<close> also accepts the literals \<^verbatim>\<open>NaN\<close>, \<^verbatim>\<open>Infinity\<close> and \<^verbatim>\<open>-Infinity\<close>; it
  yields for each one and the same float object every time. Strings are lists of
  \<^typ>\<open>char\<close>, each character a code point below 256. A dict is an association list
  in insertion order whose keys are pairwise different under Python equality.
\<close>

datatype pyval =
    PNone
  | PBool bool
  | PInt int
  | PFloat rat
  | PNaN
  | PInf bool
  | PStr string
  | PList "pyval list"
  | PDict "(pyval \<times> pyval) list"

datatype py_error = JSONDecodeError | AttributeError | TypeError

text \<open>Truth value of an object, as \<^verbatim>\<open>if x:\<close> and \<^verbatim>\<open>x or y\<close> test it.\<close>

fun truthy :: "pyval \<Rightarrow> bool" where
  "truthy PNone = False"
| "truthy (PBool b) = b"
| "truthy (PInt i) = (i \<noteq> 0)"
| "truthy (PFloat r) = (r \<noteq> 0)"
| "truthy PNaN = True"
| "truthy (PInf positive) = True"
| "truthy (PStr s) = (s \<noteq> [])"
| "truthy (PList xs) = (xs \<noteq> [])"
| "truthy (PDict kvs) = (kvs \<noteq> [])"

definition py_or :: "pyval \<Rightarrow> pyval \<Rightarrow> pyval" where
  "py_or a b = (if truthy a then a else b)"

text \<open>Lists and dicts are unhashable: using one as a dict key raises TypeError.\<close>

fun hashable :: "pyval \<Rightarrow> bool" where
  "hashable (PList xs) = False"
| "hashable (PDict kvs) = False"
| "hashable v = True"

fun num_of :: "pyval \<Rightarrow> rat option" where
  "num_of (PBool b) = Some (if b then 1 else 0)"
| "num_of (PInt i) = Some (of_int i)"
| "num_of (PFloat r) = Some r"
| "num_of v = None"

text \<open>
  Equality of dict keys, which is identity or \<^verbatim>\<open>==\<close>: finite numbers (bools included)
  by value, the rest structurally. An infinity equals itself only; the one NaN object
  is found again by identity.
\<close>

definition key_eq :: "pyval \<Rightarrow> pyval \<Rightarrow> bool" where
  "key_eq a b =
     (case num_of a of
        Some x \<Rightarrow> (case num_of b of Some y \<Rightarrow> x = y | None \<Rightarrow> False)
      | None \<Rightarrow> (case num_of b of Some y \<Rightarrow> False | None \<Rightarrow> a = b))"

fun dict_lookup :: "(pyval \<times> pyval) list \<Rightarrow> pyval \<Rightarrow> pyval option" where
  "dict_lookup [] k = None"
| "dict_lookup ((k', v) # kvs) k = (if key_eq k' k then Some v else dict_lookup kvs k)"

text \<open>\<^verbatim>\<open>obj.get(key, default)\<close>: only a dict has the method.\<close>

definition dict_get :: "(pyval \<times> pyval) list \<Rightarrow> string \<Rightarrow> pyval \<Rightarrow> pyval" where
  "dict_get kvs k d = (case dict_lookup kvs (PStr k) of Some v \<Rightarrow> v | None \<Rightarrow> d)"

fun py_get :: "pyval \<Rightarrow> string \<Rightarrow> pyval \<Rightarrow> py_error + pyval" where
  "py_get (PDict kvs) k d = Inr (dict_get kvs k d)"
| "py_get v k d = Inl AttributeError"

text \<open>\<^verbatim>\<open>for x in obj\<close>: a list yields its elements, a string its characters, a dict its
  keys; anything else is not iterable.\<close>

fun py_iter :: "pyval \<Rightarrow> py_error + pyval list" where
  "py_iter (PList xs) = Inr xs"
| "py_iter (PStr s) = Inr (map (\<lambda>c. PStr [c]) s)"
| "py_iter (PDict kvs) = Inr (map fst kvs)"
| "py_iter v = Inl TypeError"

text \<open>\<^verbatim>\<open>d[k].append(v)\<close> on a \<^verbatim>\<open>defaultdict(list)\<close>: a new key goes to the end.\<close>

fun dd_append :: "(pyval \<times> pyval list) list \<Rightarrow> pyval \<Rightarrow> pyval \<Rightarrow> (pyval \<times> pyval list) list" where
  "dd_append [] k v = [(k, [v])]"
| "dd_append ((k', vs) # d) k v =
     (if key_eq k' k then (k', vs @ [v]) # d else (k', vs) # dd_append d k v)"

text \<open>A \<^verbatim>\<open>for\<close> loop whose body may raise: the first exception leaves the loop.\<close>

fun for_each :: "('s \<Rightarrow> 'a \<Rightarrow> py_error + 's) \<Rightarrow> 'a list \<Rightarrow> 's \<Rightarrow> py_error + 's" where
  "for_each body [] s = Inr s"
| "for_each body (x # xs) s =
     (case body s x of Inl e \<Rightarrow> Inl e | Inr s' \<Rightarrow> for_each body xs s')"

subsection \<open>Strings\<close>

text \<open>Lower case of a character: the letters A to Z and, above 127, the letters from
  U+00C0 to U+00DE other than the sign U+00D7; any other character is left as it is.\<close>

definition lower_char :: "char \<Rightarrow> char" where
  "lower_char c =
     (let n = (of_char c :: nat)
      in if (65 \<le> n \<and> n \<le> 90) \<or> (192 \<le> n \<and> n \<le> 222 \<and> n \<noteq> 215) then char_of (n + 32) else c)"

text \<open>\<^verbatim>\<open>v.lower()\<close>: only a string has the method.\<close>

fun py_lower :: "pyval \<Rightarrow> py_error + string" where
  "py_lower (PStr s) = Inr (map lower_char s)"
| "py_lower v = Inl AttributeError"

fun starts_with :: "string \<Rightarrow> string \<Rightarrow> bool" where
  "starts_with s [] = True"
| "starts_with [] (p # ps) = False"
| "starts_with (c # s) (p # ps) = (c = p \<and> starts_with s ps)"

text \<open>\<^verbatim>\<open>p in s\<close> on strings.\<close>

fun str_contains :: "string \<Rightarrow> string \<Rightarrow> bool" where
  "str_contains [] p = (p = [])"
| "str_contains (c # s) p = (starts_with (c # s) p \<or> str_contains s p)"

text \<open>White space, as \<^verbatim>\<open>str.strip\<close> knows it: the code points 9 to 13, 28 to 32, U+0085
  and U+00A0.\<close>

definition is_space :: "char \<Rightarrow> bool" where
  "is_space c =
     (let n = (of_char c :: nat)
      in (9 \<le> n \<and> n \<le> 13) \<or> (28 \<le> n \<and> n \<le> 32) \<or> n = 133 \<or> n = 160)"

text \<open>\<^verbatim>\<open>not line.strip()\<close>: the line holds white space only.\<close>

definition is_blank :: "string \<Rightarrow> bool" where
  "is_blank line = list_all is_space line"

section \<open>The event parser (parsers.py, EventParser)\<close>

definition is_spike_plant :: "pyval \<Rightarrow> py_error + bool" where
  "is_spike_plant event =
     (case py_get event ''event_type'' (PStr '''') of
        Inl e \<Rightarrow> Inl e
      | Inr v \<Rightarrow>
          (case py_lower v of
             Inl e \<Rightarrow> Inl e
           | Inr event_type \<Rightarrow>
               (if str_contains event_type ''plant'' then Inr True
                else case py_get event ''type'' PNone of
                       Inl e \<Rightarrow> Inl e
                     | Inr t \<Rightarrow> Inr (t = PStr ''plant_spike''))))"

definition is_kill :: "pyval \<Rightarrow> py_error + bool" where
  "is_kill event =
     (case py_get event ''event_type'' (PStr '''') of
        Inl e \<Rightarrow> Inl e
      | Inr v \<Rightarrow>
          (case py_lower v of
             Inl e \<Rightarrow> Inl e
           | Inr event_type \<Rightarrow>
               (if str_contains event_type ''kill'' then Inr True
                else case py_get event ''type'' PNone of
                       Inl e \<Rightarrow> Inl e
                     | Inr t \<Rightarrow> Inr (t = PStr ''kill''))))"

text \<open>The body of the \<^verbatim>\<open>try\<close> block of \<^verbatim>\<open>_extract_plant_info\<close>: the dict literal, its
  entries evaluated in order.\<close>

definition plant_fields :: "pyval \<Rightarrow> py_error + pyval" where
  "plant_fields event =
     (case py_get event ''map'' PNone of Inl e \<Rightarrow> Inl e | Inr m1 \<Rightarrow>
      case (if truthy m1 then Inr m1 else py_get event ''map_name'' PNone) of Inl e \<Rightarrow> Inl e | Inr m2 \<Rightarrow>
      case py_get event ''site'' (PStr ''unknown'') of Inl e \<Rightarrow> Inl e | Inr site \<Rightarrow>
      case py_get event ''round_id'' PNone of Inl e \<Rightarrow> Inl e | Inr rnd \<Rightarrow>
      case py_get event ''timestamp'' PNone of Inl e \<Rightarrow> Inl e | Inr ts \<Rightarrow>
      case py_get event ''round_time'' PNone of Inl e \<Rightarrow> Inl e | Inr rt \<Rightarrow>
        Inr (PDict
          [(PStr ''map'', py_or m2 (PStr ''unknown'')),
           (PStr ''site'', site),
           (PStr ''round'', rnd),
           (PStr ''timestamp'', ts),
           (PStr ''round_time'', rt),
           (PStr ''raw_event'', event)]))"

text \<open>\<^verbatim>\<open>except Exception: return None\<close>.\<close>

definition extract_plant_info :: "pyval \<Rightarrow> pyval" where
  "extract_plant_info event = (case plant_fields event of Inl e \<Rightarrow> PNone | Inr d \<Rightarrow> d)"

definition kill_fields :: "pyval \<Rightarrow> py_error + pyval" where
  "kill_fields event =
     (case py_get event ''killer'' PNone of Inl e \<Rightarrow> Inl e | Inr k1 \<Rightarrow>
      case (if truthy k1 then Inr k1 else py_get event ''killer_name'' PNone) of Inl e \<Rightarrow> Inl e | Inr killer \<Rightarrow>
      case py_get event ''victim'' PNone of Inl e \<Rightarrow> Inl e | Inr v1 \<Rightarrow>
      case (if truthy v1 then Inr v1 else py_get event ''victim_name'' PNone) of Inl e \<Rightarrow> Inl e | Inr victim \<Rightarrow>
      case py_get event ''round_id'' PNone of Inl e \<Rightarrow> Inl e | Inr rnd \<Rightarrow>
      case py_get event ''timestamp'' PNone of Inl e \<Rightarrow> Inl e | Inr ts \<Rightarrow>
      case py_get event ''round_time'' PNone of Inl e \<Rightarrow> Inl e | Inr rt \<Rightarrow>
        Inr (PDict
          [(PStr ''killer'', killer),
           (PStr ''victim'', victim),
           (PStr ''round'', rnd),
           (PStr ''timestamp'', ts),
           (PStr ''round_time'', rt),
           (PStr ''raw_event'', event)]))"

definition extract_kill_info :: "pyval \<Rightarrow> pyval" where
  "extract_kill_info event = (case kill_fields event of Inl e \<Rightarrow> PNone | Inr d \<Rightarrow> d)"

text \<open>The four accumulators of \<^verbatim>\<open>parse_events\<close>; they are also its result.\<close>

record event_facts =
  spike_plants :: "pyval list"
  kills :: "pyval list"
  events_by_round :: "(pyval \<times> pyval list) list"
  schema_preview :: pyval

definition no_facts :: event_facts where
  "no_facts = \<lparr>spike_plants = [], kills = [], events_by_round = [], schema_preview = PDict []\<rparr>"

text \<open>\<^verbatim>\<open>list(event.keys())[:10]\<close>.\<close>

fun sample_keys :: "pyval \<Rightarrow> py_error + pyval" where
  "sample_keys (PDict kvs) = Inr (PList (take 10 (map fst kvs)))"
| "sample_keys v = Inl AttributeError"

text \<open>
  One pass of the body of \<^verbatim>\<open>for line in f\<close>. The accumulators are mutated in place, so
  what a line did before it raised stays done: the result is the accumulators together
  with the exception, if any, that left the body. \<open>loads\<close> is \<^verbatim>\<open>json.loads\<close>, a
  parameter of the model: \<open>None\<close> is its JSONDecodeError.
\<close>

definition process_line ::
  "(string \<Rightarrow> pyval option) \<Rightarrow> string \<Rightarrow> event_facts \<Rightarrow> string \<Rightarrow> py_error option \<times> event_facts" where
  "process_line loads fname st line =
     (if is_blank line then (None, st)
      else case loads line of
        None \<Rightarrow> (Some JSONDecodeError, st)
      | Some event \<Rightarrow>
          (case (if \<not> truthy (schema_preview st)
                 then (case sample_keys event of
                         Inl e \<Rightarrow> Inl e
                       | Inr ks \<Rightarrow> Inr (st\<lparr>schema_preview :=
                                   PDict [(PStr ''sample_keys'', ks), (PStr ''file'', PStr fname)]\<rparr>))
                 else Inr st) of
             Inl e \<Rightarrow> (Some e, st)
           | Inr st1 \<Rightarrow>
          (case is_spike_plant event of
             Inl e \<Rightarrow> (Some e, st1)
           | Inr is_plant \<Rightarrow>
          (let st2 = (if is_plant \<and> truthy (extract_plant_info event)
                      then st1\<lparr>spike_plants := spike_plants st1 @ [extract_plant_info event]\<rparr>
                      else st1)
           in case is_kill event of
             Inl e \<Rightarrow> (Some e, st2)
           | Inr is_k \<Rightarrow>
          (let st3 = (if is_k \<and> truthy (extract_kill_info event)
                      then st2\<lparr>kills := kills st2 @ [extract_kill_info event]\<rparr>
                      else st2)
           in case py_get event ''round_id'' (PStr ''unknown'') of
             Inl e \<Rightarrow> (Some e, st3)
           | Inr round_id \<Rightarrow>
               (if hashable round_id
                then (None, st3\<lparr>events_by_round := dd_append (events_by_round st3) round_id event\<rparr>)
                else (Some TypeError, st3)))))))"

text \<open>
  The body of \<^verbatim>\<open>for jsonl_file in jsonl_files\<close>: the \<^verbatim>\<open>try\<close> encloses the whole loop over
  the lines, so the first exception ends the file; both handlers only log.
\<close>

fun process_file ::
  "(string \<Rightarrow> pyval option) \<Rightarrow> string \<Rightarrow> event_facts \<Rightarrow> string list \<Rightarrow> event_facts" where
  "process_file loads fname st [] = st"
| "process_file loads fname st (line # rest) =
     (case process_line loads fname st line of
        (Some e, st') \<Rightarrow> st'
      | (None, st') \<Rightarrow> process_file loads fname st' rest)"

text \<open>
  \<^verbatim>\<open>parse_events\<close>. The files found under the cache directory are given as pairs of a
  file name and its lines. Writing \<^verbatim>\<open>schema_preview.json\<close> is an effect on the file
  system and is not part of the model.
\<close>

definition parse_events ::
  "(string \<Rightarrow> pyval option) \<Rightarrow> (string \<times> string list) list \<Rightarrow> event_facts" where
  "parse_events loads jsonl_files =
     (if jsonl_files = [] then no_facts
      else foldl (\<lambda>st (fname, lines). process_file loads fname st lines) no_facts jsonl_files)"

section \<open>The end-state parser (parsers.py, EndStateParser)\<close>

text \<open>What \<^verbatim>\<open>parse_end_state\<close> returns when the file is absent or an exception is caught.\<close>

definition empty_end_state :: pyval where
  "empty_end_state =
     PDict [(PStr ''maps'', PList []), (PStr ''comps'', PList []), (PStr ''players'', PList [])]"

text \<open>\<^verbatim>\<open>k in data\<close> for a string \<open>k\<close>: a key of a dict, an element of a list, a substring of a
  string; anything else is not a container.\<close>

fun py_in :: "string \<Rightarrow> pyval \<Rightarrow> py_error + bool" where
  "py_in k (PDict kvs) = Inr (dict_lookup kvs (PStr k) \<noteq> None)"
| "py_in k (PList xs) = Inr (list_ex (\<lambda>x. x = PStr k) xs)"
| "py_in k (PStr s) = Inr (str_contains s k)"
| "py_in k v = Inl TypeError"

text \<open>
  The body of \<^verbatim>\<open>for player in data.get("players", [])\<close>. Its state is the list
  \<^verbatim>\<open>players\<close> and the \<^verbatim>\<open>defaultdict\<close> \<^verbatim>\<open>comps\<close>, kept as the agent list of each team.
\<close>

definition add_player ::
  "pyval list \<times> (pyval \<times> pyval list) list \<Rightarrow> pyval \<Rightarrow> py_error + pyval list \<times> (pyval \<times> pyval list) list" where
  "add_player acc player =
     (case acc of (players, comps) \<Rightarrow>
     (case py_get player ''name'' (PStr ''unknown'') of Inl e \<Rightarrow> Inl e | Inr name \<Rightarrow>
      case py_get player ''agent'' PNone of Inl e \<Rightarrow> Inl e | Inr a1 \<Rightarrow>
      case (if truthy a1 then Inr a1 else py_get player ''selected_agent'' (PStr ''unknown'')) of
        Inl e \<Rightarrow> Inl e | Inr agent_shown \<Rightarrow>
      case py_get player ''team'' (PStr ''unknown'') of Inl e \<Rightarrow> Inl e | Inr team \<Rightarrow>
      case (if truthy a1 then Inr a1 else py_get player ''selected_agent'' PNone) of
        Inl e \<Rightarrow> Inl e | Inr agent \<Rightarrow>
        (let player_info = PDict [(PStr ''name'', name), (PStr ''agent'', agent_shown), (PStr ''team'', team)]
         in if truthy agent
            then (if hashable team then Inr (players @ [player_info], dd_append comps team agent)
                  else Inl TypeError)
            else Inr (players @ [player_info], comps))))"

definition end_state_fields :: "pyval \<Rightarrow> py_error + pyval" where
  "end_state_fields data =
     (case py_in ''maps'' data of Inl e \<Rightarrow> Inl e | Inr has_maps \<Rightarrow>
      case (if has_maps then py_get data ''maps'' (PList []) else Inr (PList [])) of
        Inl e \<Rightarrow> Inl e | Inr map_list \<Rightarrow>
      case py_in ''players'' data of Inl e \<Rightarrow> Inl e | Inr has_players \<Rightarrow>
      case (if has_players
            then (case py_get data ''players'' (PList []) of
                    Inl e \<Rightarrow> Inl e
                  | Inr ps \<Rightarrow> (case py_iter ps of
                                 Inl e \<Rightarrow> Inl e
                               | Inr player_list \<Rightarrow> for_each add_player player_list ([], [])))
            else Inr ([], [])) of
        Inl e \<Rightarrow> Inl e | Inr (players, comps) \<Rightarrow>
        Inr (PDict
          [(PStr ''maps'', map_list),
           (PStr ''comps'', PDict (map (\<lambda>(team, agents). (team, PDict [(PStr ''agents'', PList agents)])) comps)),
           (PStr ''players'', PList players),
           (PStr ''raw_data'', data)]))"

text \<open>
  \<^verbatim>\<open>parse_end_state\<close>: \<open>content\<close> is the text of \<^verbatim>\<open>end_state.json\<close>, \<open>None\<close> when the file
  does not exist; \<open>loads\<close> is the JSON decoder. Both handlers return the empty result.
\<close>

definition parse_end_state :: "(string \<Rightarrow> pyval option) \<Rightarrow> string option \<Rightarrow> pyval" where
  "parse_end_state loads content =
     (case content of
        None \<Rightarrow> empty_end_state
      | Some text \<Rightarrow>
          (case loads text of
             None \<Rightarrow> empty_end_state
           | Some data \<Rightarrow>
               (case end_state_fields data of Inl e \<Rightarrow> empty_end_state | Inr r \<Rightarrow> r)))"

section \<open>Assembling the match bundles (main.py)\<close>

text \<open>The dict that \<^verbatim>\<open>parse_events\<close> returns, built from its accumulators.\<close>

definition facts_dict :: "event_facts \<Rightarrow> pyval" where
  "facts_dict r =
     PDict [(PStr ''spike_plants'', PList (spike_plants r)),
            (PStr ''kills'', PList (kills r)),
            (PStr ''events_by_round'', PDict (map (\<lambda>(k, es). (k, PList es)) (events_by_round r))),
            (PStr ''schema_preview'', schema_preview r)]"

text \<open>One element of \<^verbatim>\<open>series_data\<close>.\<close>

definition series_bundle :: "string \<Rightarrow> event_facts \<Rightarrow> pyval \<Rightarrow> pyval" where
  "series_bundle series_id events end_state =
     PDict [(PStr ''series_id'', PStr series_id),
            (PStr ''events'', facts_dict events),
            (PStr ''end_state'', end_state)]"

section \<open>The aggregation engine (insights.py, TacticalInsights)\<close>

text \<open>\<^verbatim>\<open>d[k] = v\<close> on a dict: an existing key keeps its place, a new one goes to the end.\<close>

fun dict_set :: "(pyval \<times> 'v) list \<Rightarrow> pyval \<Rightarrow> 'v \<Rightarrow> (pyval \<times> 'v) list" where
  "dict_set [] k v = [(k, v)]"
| "dict_set ((k', v') # d) k v =
     (if key_eq k' k then (k', v) # d else (k', v') # dict_set d k v)"

subsection \<open>pandas: \<^verbatim>\<open>pd.DataFrame({c: xs})[c].value_counts().to_dict()\<close>\<close>

text \<open>
  pandas is outside the repository; the model follows its documentation:
  \<^verbatim>\<open>value_counts\<close> returns the counts of the unique values, most frequent first, and,
  \<^verbatim>\<open>dropna\<close> being true by default, leaves the NA values (\<^verbatim>\<open>None\<close> and NaN) out. Values are
  unique up to Python equality, and a key is the value as it first occurred (pandas
  may return a numerically equal value of another numeric type). Values of the same
  count are kept here in the order of their first occurrence; no property below
  depends on that order. An unhashable value makes the count raise TypeError.
\<close>

fun is_na :: "pyval \<Rightarrow> bool" where
  "is_na PNone = True"
| "is_na PNaN = True"
| "is_na v = False"

fun tally :: "(pyval \<times> nat) list \<Rightarrow> pyval \<Rightarrow> (pyval \<times> nat) list" where
  "tally [] k = [(k, 1)]"
| "tally ((k', n) # c) k =
     (if key_eq k' k then (k', Suc n) # c else (k', n) # tally c k)"

definition value_counts :: "pyval list \<Rightarrow> py_error + (pyval \<times> nat) list" where
  "value_counts xs =
     (if list_all hashable xs
      then Inr (sort_key (\<lambda>(k, n). - int n) (foldl tally [] (filter (\<lambda>x. \<not> is_na x) xs)))
      else Inl TypeError)"

subsection \<open>Map pool\<close>

record 'k map_pool =
  maps :: "('k \<times> nat) list"
  total :: nat

text \<open>\<^verbatim>\<open>series.get("end_state", {}).get("maps", [])\<close>.\<close>

definition end_state_maps :: "pyval \<Rightarrow> py_error + pyval" where
  "end_state_maps series =
     (case py_get series ''end_state'' (PDict []) of
        Inl e \<Rightarrow> Inl e
      | Inr end_state \<Rightarrow> py_get end_state ''maps'' (PList []))"

text \<open>The \<^verbatim>\<open>if isinstance ... elif ... else\<close> that names a map descriptor.\<close>

fun map_name_of :: "pyval \<Rightarrow> pyval" where
  "map_name_of (PDict kvs) =
     py_or (dict_get kvs ''name'' PNone) (dict_get kvs ''map_name'' PNone)"
| "map_name_of (PStr s) = PStr s"
| "map_name_of v = PStr ''unknown''"

definition add_map :: "pyval list \<Rightarrow> pyval \<Rightarrow> pyval list" where
  "add_map acc map_info =
     (let map_name = map_name_of map_info in if truthy map_name then acc @ [map_name] else acc)"



subsection \<open>Plant sites and attack-site preference\<close>

text \<open>
  \<^verbatim>\<open>round(x, 1)\<close> rounds to the nearest tenth, a tie going to the even neighbour. The
  three float operations of \<^verbatim>\<open>round(v / total * 100, 1)\<close> each deliver the float nearest
  to their exact result; \<open>fl\<close> is that rounding to the float format, a parameter of
  the model (the identity is exact arithmetic).
\<close>

definition round_half_even :: "rat \<Rightarrow> int" where
  "round_half_even x =
     (let f = \<lfloor>x\<rfloor>; d = x - of_int f
      in if d < 1 / 2 then f else if 1 / 2 < d then f + 1 else if even f then f else f + 1)"

definition py_round1 :: "rat \<Rightarrow> rat" where
  "py_round1 x = of_int (round_half_even (x * 10)) / 10"

definition percentage :: "(rat \<Rightarrow> rat) \<Rightarrow> nat \<Rightarrow> nat \<Rightarrow> rat" where
  "percentage fl v n = fl (py_round1 (fl (fl (of_nat v / of_nat n) * 100)))"

record 'k site_view =
  counts :: "('k \<times> nat) list"
  percentages :: "('k \<times> rat) list"
  site_total :: nat

text \<open>\<^verbatim>\<open>series.get("events", {}).get("spike_plants", [])\<close>.\<close>

definition series_plants :: "pyval \<Rightarrow> py_error + pyval" where
  "series_plants series =
     (case py_get series ''events'' (PDict []) of
        Inl e \<Rightarrow> Inl e
      | Inr events \<Rightarrow> py_get events ''spike_plants'' (PList []))"

definition add_plant :: "(pyval \<times> pyval list) list \<Rightarrow> pyval \<Rightarrow> py_error + (pyval \<times> pyval list) list" where
  "add_plant plants_by_map plant =
     (case py_get plant ''map'' (PStr ''unknown'') of
        Inl e \<Rightarrow> Inl e
      | Inr map_name \<Rightarrow>
          (case py_get plant ''site'' (PStr ''unknown'') of
             Inl e \<Rightarrow> Inl e
           | Inr site \<Rightarrow>
               (if hashable map_name then Inr (dd_append plants_by_map map_name site)
                else Inl TypeError)))"

definition add_series_plants ::
  "(pyval \<times> pyval list) list \<Rightarrow> pyval \<Rightarrow> py_error + (pyval \<times> pyval list) list" where
  "add_series_plants plants_by_map series =
     (case series_plants series of
        Inl e \<Rightarrow> Inl e
      | Inr plant_list \<Rightarrow>
          (case py_iter plant_list of
             Inl e \<Rightarrow> Inl e
           | Inr plants \<Rightarrow> for_each add_plant plants plants_by_map))"

text \<open>The body of the second loop: one map's entry of the result.\<close>

definition add_site_view ::
  "(rat \<Rightarrow> rat) \<Rightarrow> (pyval \<times> pyval site_view) list \<Rightarrow> pyval \<times> pyval list \<Rightarrow> py_error + (pyval \<times> pyval site_view) list" where
  "add_site_view fl result entry =
     (case entry of (map_name, sites) \<Rightarrow>
        (if sites \<noteq> []
         then (case value_counts sites of
                 Inl e \<Rightarrow> Inl e
               | Inr site_counts \<Rightarrow>
                   Inr (dict_set result map_name
                     \<lparr>counts = site_counts,
                      percentages = map (\<lambda>(k, v). (k, percentage fl v (length sites))) site_counts,
                      site_total = length sites\<rparr>))
         else Inr result))"

definition analyze_plant_sites :: "(rat \<Rightarrow> rat) \<Rightarrow> pyval list \<Rightarrow> py_error + (pyval \<times> pyval site_view) list" where
  "analyze_plant_sites fl series_data =
     (case for_each add_series_plants series_data [] of
        Inl e \<Rightarrow> Inl e
      | Inr plants_by_map \<Rightarrow> for_each (add_site_view fl) plants_by_map [])"

definition analyze_attack_site_preference ::
  "(rat \<Rightarrow> rat) \<Rightarrow> pyval list \<Rightarrow> py_error + (pyval \<times> pyval site_view) list" where
  "analyze_attack_site_preference fl series_data =
     (case for_each add_series_plants series_data [] of
        Inl e \<Rightarrow> Inl e
      | Inr plants_by_map \<Rightarrow> for_each (add_site_view fl) plants_by_map [])"

subsection \<open>Opening duels\<close>

text \<open>
  \<^verbatim>\<open>player_stats\<close> is a \<^verbatim>\<open>defaultdict\<close> of two counters per player: a pair
  (first kills, first deaths), created as \<open>(0, 0)\<close> at the first access.
\<close>

fun add_first_kill :: "(pyval \<times> nat \<times> nat) list \<Rightarrow> pyval \<Rightarrow> (pyval \<times> nat \<times> nat) list" where
  "add_first_kill [] p = [(p, 1, 0)]"
| "add_first_kill ((p', k, d) # ps) p =
     (if key_eq p' p then (p', Suc k, d) # ps else (p', k, d) # add_first_kill ps p)"

fun add_first_death :: "(pyval \<times> nat \<times> nat) list \<Rightarrow> pyval \<Rightarrow> (pyval \<times> nat \<times> nat) list" where
  "add_first_death [] p = [(p, 0, 1)]"
| "add_first_death ((p', k, d) # ps) p =
     (if key_eq p' p then (p', k, Suc d) # ps else (p', k, d) # add_first_death ps p)"

record duel_entry =
  first_kills :: nat
  first_deaths :: nat
  net :: int

text \<open>\<^verbatim>\<open>series.get("events", {}).get("kills", [])\<close>.\<close>

definition series_kills :: "pyval \<Rightarrow> py_error + pyval" where
  "series_kills series =
     (case py_get series ''events'' (PDict []) of
        Inl e \<Rightarrow> Inl e
      | Inr events \<Rightarrow> py_get events ''kills'' (PList []))"

definition add_kill :: "(pyval \<times> nat \<times> nat) list \<Rightarrow> pyval \<Rightarrow> py_error + (pyval \<times> nat \<times> nat) list" where
  "add_kill player_stats kill =
     (case py_get kill ''killer'' PNone of
        Inl e \<Rightarrow> Inl e
      | Inr killer \<Rightarrow>
     (case py_get kill ''victim'' PNone of
        Inl e \<Rightarrow> Inl e
      | Inr victim \<Rightarrow>
     (case (if truthy killer
            then (if hashable killer then Inr (add_first_kill player_stats killer) else Inl TypeError)
            else Inr player_stats) of
        Inl e \<Rightarrow> Inl e
      | Inr stats1 \<Rightarrow>
          (if truthy victim
           then (if hashable victim then Inr (add_first_death stats1 victim) else Inl TypeError)
           else Inr stats1))))"

definition add_series_kills ::
  "(pyval \<times> nat \<times> nat) list \<Rightarrow> pyval \<Rightarrow> py_error + (pyval \<times> nat \<times> nat) list" where
  "add_series_kills player_stats series =
     (case series_kills series of
        Inl e \<Rightarrow> Inl e
      | Inr kill_list \<Rightarrow>
          (case py_iter kill_list of
             Inl e \<Rightarrow> Inl e
           | Inr ks \<Rightarrow> for_each add_kill ks player_stats))"

text \<open>The body of the loop that computes the net.\<close>

definition add_duel_entry :: "(pyval \<times> duel_entry) list \<Rightarrow> pyval \<times> nat \<times> nat \<Rightarrow> (pyval \<times> duel_entry) list" where
  "add_duel_entry result entry =
     (case entry of (player, k, d) \<Rightarrow>
        (if truthy player \<and> player \<noteq> PStr ''unknown''
         then dict_set result player
                \<lparr>first_kills = k, first_deaths = d, net = int k - int d\<rparr>
         else result))"

text \<open>\<^verbatim>\<open>sorted(..., key=..., reverse=True)\<close> keeps entries of equal key in their order.\<close>

definition analyze_opening_duels :: "pyval list \<Rightarrow> py_error + (pyval \<times> duel_entry) list" where
  "analyze_opening_duels series_data =
     (case for_each add_series_kills series_data [] of
        Inl e \<Rightarrow> Inl e
      | Inr player_stats \<Rightarrow>
          Inr (sort_key (\<lambda>x. - net (snd x)) (foldl add_duel_entry [] player_stats)))"

subsection \<open>Composition frequency\<close>

fun is_str :: "pyval \<Rightarrow> bool" where
  "is_str (PStr s) = True"
| "is_str v = False"

fun str_of :: "pyval \<Rightarrow> string" where
  "str_of (PStr s) = s"
| "str_of v = []"

text \<open>\<^verbatim>\<open>sep.join(xs)\<close> on strings.\<close>

fun join :: "string \<Rightarrow> string list \<Rightarrow> string" where
  "join sep [] = []"
| "join sep [x] = x"
| "join sep (x # y # ys) = x @ sep @ join sep (y # ys)"

text \<open>
  \<^verbatim>\<open>"+".join(sorted(agents))\<close>: \<^verbatim>\<open>sorted\<close> takes any iterable; an element that is not a
  string makes \<^verbatim>\<open>sorted\<close> or, at the latest, \<^verbatim>\<open>join\<close> raise TypeError.
\<close>

definition comp_signature :: "pyval \<Rightarrow> py_error + pyval" where
  "comp_signature agents =
     (case py_iter agents of
        Inl e \<Rightarrow> Inl e
      | Inr xs \<Rightarrow>
          (if list_all is_str xs then Inr (PStr (join ''+'' (sort (map str_of xs))))
           else Inl TypeError))"

text \<open>\<^verbatim>\<open>d.items()\<close>: only a dict has the method.\<close>

fun py_items :: "pyval \<Rightarrow> py_error + (pyval \<times> pyval) list" where
  "py_items (PDict kvs) = Inr kvs"
| "py_items v = Inl AttributeError"

text \<open>\<^verbatim>\<open>map_info.get("name") if isinstance(map_info, dict) else map_info\<close>.\<close>

fun comp_map_name :: "pyval \<Rightarrow> pyval" where
  "comp_map_name (PDict kvs) = dict_get kvs ''name'' PNone"
| "comp_map_name v = v"

text \<open>The body of \<^verbatim>\<open>for team, comp_data in comps.items()\<close>.\<close>

definition add_team_comp ::
  "pyval \<Rightarrow> (pyval \<times> pyval list) list \<Rightarrow> pyval \<times> pyval \<Rightarrow> py_error + (pyval \<times> pyval list) list" where
  "add_team_comp map_name comps_by_map item =
     (case item of (team, comp_data) \<Rightarrow>
        (case py_get comp_data ''agents'' (PList []) of
           Inl e \<Rightarrow> Inl e
         | Inr agents \<Rightarrow>
             (if truthy agents
              then (case comp_signature agents of
                      Inl e \<Rightarrow> Inl e
                    | Inr comp_sig \<Rightarrow>
                        (if hashable map_name then Inr (dd_append comps_by_map map_name comp_sig)
                         else Inl TypeError))
              else Inr comps_by_map)))"

text \<open>The body of \<^verbatim>\<open>for map_info in series_maps\<close>.\<close>

definition add_map_comps ::
  "pyval \<Rightarrow> (pyval \<times> pyval list) list \<Rightarrow> pyval \<Rightarrow> py_error + (pyval \<times> pyval list) list" where
  "add_map_comps comps comps_by_map map_info =
     (case py_items comps of
        Inl e \<Rightarrow> Inl e
      | Inr items \<Rightarrow> for_each (add_team_comp (comp_map_name map_info)) items comps_by_map)"

definition add_series_comps ::
  "(pyval \<times> pyval list) list \<Rightarrow> pyval \<Rightarrow> py_error + (pyval \<times> pyval list) list" where
  "add_series_comps comps_by_map series =
     (case py_get series ''end_state'' (PDict []) of
        Inl e \<Rightarrow> Inl e
      | Inr end_state \<Rightarrow>
     (case py_get end_state ''maps'' (PList []) of
        Inl e \<Rightarrow> Inl e
      | Inr series_maps \<Rightarrow>
     (case py_get end_state ''comps'' (PDict []) of
        Inl e \<Rightarrow> Inl e
      | Inr comps \<Rightarrow>
          (if truthy series_maps \<and> truthy comps
           then (case py_iter series_maps of
                   Inl e \<Rightarrow> Inl e
                 | Inr infos \<Rightarrow> for_each (add_map_comps comps) infos comps_by_map)
           else Inr comps_by_map))))"

record comp_view =
  compositions :: "(pyval \<times> nat) list"
  comp_total :: nat

record comp_frequency =
  by_map :: "(pyval \<times> comp_view) list"
  insufficient_data :: bool

text \<open>The body of the second loop; its state is \<^verbatim>\<open>result\<close> and \<^verbatim>\<open>insufficient_data\<close>.\<close>

definition add_comp_view :: "comp_frequency \<Rightarrow> pyval \<times> pyval list \<Rightarrow> py_error + comp_frequency" where
  "add_comp_view acc entry =
     (case entry of (map_name, comp_list) \<Rightarrow>
        (if comp_list \<noteq> []
         then (case value_counts comp_list of
                 Inl e \<Rightarrow> Inl e
               | Inr comp_counts \<Rightarrow>
                   Inr \<lparr>by_map = dict_set (by_map acc) map_name
                                   \<lparr>compositions = comp_counts, comp_total = length comp_list\<rparr>,
                        insufficient_data = False\<rparr>)
         else Inr acc))"

definition analyze_comp_frequency :: "pyval list \<Rightarrow> py_error + comp_frequency" where
  "analyze_comp_frequency series_data =
     (case for_each add_series_comps series_data [] of
        Inl e \<Rightarrow> Inl e
      | Inr comps_by_map \<Rightarrow>
          for_each add_comp_view comps_by_map \<lparr>by_map = [], insufficient_data = True\<rparr>)"

section \<open>The report (report.py, ReportGenerator)\<close>

text \<open>
  The renderer is given the views with keys of type \<^verbatim>\<open>str\<close>, which an f-string inserts
  as they are. The views are records here, so the defaults of the renderer's
  \<^verbatim>\<open>.get\<close> calls have no counterpart.
\<close>

definition digit_char :: "nat \<Rightarrow> char" where
  "digit_char d = char_of (48 + d)"

function str_of_nat :: "nat \<Rightarrow> string" where
  "str_of_nat n = (if n < 10 then [digit_char n] else str_of_nat (n div 10) @ [digit_char (n mod 10)])"
  by pat_completeness auto
termination
  by (relation "measure id") auto

text \<open>The format \<^verbatim>\<open>{net:+d}\<close>.\<close>

definition fmt_signed :: "int \<Rightarrow> string" where
  "fmt_signed i = (if i < 0 then ''-'' @ str_of_nat (nat (- i)) else ''+'' @ str_of_nat (nat i))"

text \<open>\<^verbatim>\<open>max(d.items(), key=lambda x: x[1])\<close> on a non-empty dict: the first item among those
  of the largest value.\<close>

fun max_by_count :: "'k \<times> nat \<Rightarrow> ('k \<times> nat) list \<Rightarrow> 'k \<times> nat" where
  "max_by_count best [] = best"
| "max_by_count best (x # xs) = max_by_count (if snd best < snd x then x else best) xs"

definition primary_site_line :: "string list \<Rightarrow> string \<times> string site_view \<Rightarrow> string list" where
  "primary_site_line lines item =
     (case item of (map_name, data) \<Rightarrow>
        (case counts data of
           [] \<Rightarrow> lines
         | c # cs \<Rightarrow>
             lines @ [''- **Primary site ('' @ map_name @ ''):** '' @ fst (max_by_count c cs)]))"

definition section_summary ::
  "string map_pool \<Rightarrow> (string \<times> string site_view) list \<Rightarrow> (string \<times> duel_entry) list \<Rightarrow> string list" where
  "section_summary maps_played attack_site_preference opening_duels =
     (let lines0 = [''## TL;DR - Key Takeaways'', ''''];
          lines1 = (case maps maps_played of
                      [] \<Rightarrow> lines0
                    | m # ms \<Rightarrow>
                        (let most_played_map = max_by_count m ms
                         in lines0 @ [''- **Most played map:** '' @ fst most_played_map @ '' (''
                                        @ str_of_nat (snd most_played_map) @ '' times)'']));
          lines2 = foldl primary_site_line lines1 (take 1 attack_site_preference);
          lines3 = (case opening_duels of
                      [] \<Rightarrow> lines2
                    | top_player # rest \<Rightarrow>
                        lines2 @ [''- **Strongest duel player:** '' @ fst top_player @ '' (Net: ''
                                    @ fmt_signed (net (snd top_player)) @ '')''])
      in lines3 @ [''''])"

section \<open>The aggregation engine with its objects in a store\<close>

text \<open>
  The functions of \<^verbatim>\<open>TacticalInsights\<close> work by mutating lists and dicts in place. To see
  what a call can leave behind for the next one, they are given here a second time
  with these objects in a store: a call receives the store as earlier calls left it,
  creates its objects in it, updates them in place and returns the store along with
  its result. The bundles are values: the functions only read them (\<^verbatim>\<open>get\<close>, iteration,
  \<^verbatim>\<open>isinstance\<close>, and \<^verbatim>\<open>sorted\<close>, which builds a new list).
\<close>

datatype cell =
    CFree
  | CNames "pyval list"
  | CGroups "(pyval \<times> pyval list) list"
  | CViews "(pyval \<times> pyval site_view) list"
  | CStats "(pyval \<times> nat \<times> nat) list"
  | CDuels "(pyval \<times> duel_entry) list"
  | CFreq comp_frequency

type_synonym store = "cell list"

text \<open>Creating an object: it gets an address that no object had before.\<close>

definition alloc :: "cell \<Rightarrow> store \<Rightarrow> nat \<times> store" where
  "alloc c s = (length s, s @ [c])"

definition fetch :: "store \<Rightarrow> nat \<Rightarrow> cell" where
  "fetch s a = (if a < length s then s ! a else CFree)"

definition save :: "store \<Rightarrow> nat \<Rightarrow> cell \<Rightarrow> store" where
  "save s a c = s[a := c]"

fun names_of :: "cell \<Rightarrow> pyval list" where
  "names_of (CNames xs) = xs"
| "names_of c = []"

fun groups_of :: "cell \<Rightarrow> (pyval \<times> pyval list) list" where
  "groups_of (CGroups d) = d"
| "groups_of c = []"

fun views_of :: "cell \<Rightarrow> (pyval \<times> pyval site_view) list" where
  "views_of (CViews d) = d"
| "views_of c = []"

fun stats_of :: "cell \<Rightarrow> (pyval \<times> nat \<times> nat) list" where
  "stats_of (CStats d) = d"
| "stats_of c = []"

fun duels_of :: "cell \<Rightarrow> (pyval \<times> duel_entry) list" where
  "duels_of (CDuels d) = d"
| "duels_of c = []"

fun freq_of :: "cell \<Rightarrow> comp_frequency" where
  "freq_of (CFreq r) = r"
| "freq_of c = \<lparr>by_map = [], insufficient_data = True\<rparr>"

text \<open>A \<^verbatim>\<open>for\<close> loop over a state that keeps what was done before an exception.\<close>

fun loop_st :: "('x \<Rightarrow> 'st \<Rightarrow> py_error option \<times> 'st) \<Rightarrow> 'x list \<Rightarrow> 'st \<Rightarrow> py_error option \<times> 'st" where
  "loop_st body [] s = (None, s)"
| "loop_st body (x # xs) s =
     (case body x s of (Some e, s') \<Rightarrow> (Some e, s') | (None, s') \<Rightarrow> loop_st body xs s')"

text \<open>One statement that updates the object at an address in place, or raises.\<close>

definition update_at ::
  "(cell \<Rightarrow> 'acc) \<Rightarrow> ('acc \<Rightarrow> cell) \<Rightarrow> nat \<Rightarrow> ('acc \<Rightarrow> 'x \<Rightarrow> py_error + 'acc)
     \<Rightarrow> 'x \<Rightarrow> store \<Rightarrow> py_error option \<times> store" where
  "update_at proj wrap a body x s =
     (case body (proj (fetch s a)) x of
        Inl e \<Rightarrow> (Some e, s)
      | Inr acc' \<Rightarrow> (None, save s a (wrap acc')))"

subsection \<open>Map pool\<close>

definition add_series_maps_st :: "nat \<Rightarrow> pyval \<Rightarrow> store \<Rightarrow> py_error option \<times> store" where
  "add_series_maps_st maps_ref series s =
     (case end_state_maps series of
        Inl e \<Rightarrow> (Some e, s)
      | Inr series_maps \<Rightarrow>
          (case py_iter series_maps of
             Inl e \<Rightarrow> (Some e, s)
           | Inr infos \<Rightarrow>
               loop_st (update_at names_of CNames maps_ref (\<lambda>acc map_info. Inr (add_map acc map_info)))
                 infos s))"

definition analyze_maps_played_st :: "store \<Rightarrow> pyval list \<Rightarrow> (py_error + pyval map_pool) \<times> store" where
  "analyze_maps_played_st s0 series_data =
     (case alloc (CNames []) s0 of (maps_ref, s1) \<Rightarrow>
      (case loop_st (add_series_maps_st maps_ref) series_data s1 of
         (Some e, s2) \<Rightarrow> (Inl e, s2)
       | (None, s2) \<Rightarrow>
           (let names = names_of (fetch s2 maps_ref)
            in if names = [] then (Inr \<lparr>maps = [], total = 0\<rparr>, s2)
               else (case value_counts names of
                       Inl e \<Rightarrow> (Inl e, s2)
                     | Inr map_counts \<Rightarrow> (Inr \<lparr>maps = map_counts, total = length names\<rparr>, s2)))))"

subsection \<open>Plant sites and attack-site preference\<close>

definition add_series_plants_st :: "nat \<Rightarrow> pyval \<Rightarrow> store \<Rightarrow> py_error option \<times> store" where
  "add_series_plants_st groups_ref series s =
     (case series_plants series of
        Inl e \<Rightarrow> (Some e, s)
      | Inr plant_list \<Rightarrow>
          (case py_iter plant_list of
             Inl e \<Rightarrow> (Some e, s)
           | Inr plants \<Rightarrow> loop_st (update_at groups_of CGroups groups_ref add_plant) plants s))"

definition analyze_plant_sites_st ::
  "(rat \<Rightarrow> rat) \<Rightarrow> store \<Rightarrow> pyval list \<Rightarrow> (py_error + (pyval \<times> pyval site_view) list) \<times> store" where
  "analyze_plant_sites_st fl s0 series_data =
     (case alloc (CGroups []) s0 of (groups_ref, s1) \<Rightarrow>
      (case loop_st (add_series_plants_st groups_ref) series_data s1 of
         (Some e, s2) \<Rightarrow> (Inl e, s2)
       | (None, s2) \<Rightarrow>
           (case alloc (CViews []) s2 of (result_ref, s3) \<Rightarrow>
            (case loop_st (update_at views_of CViews result_ref (add_site_view fl))
                    (groups_of (fetch s3 groups_ref)) s3 of
               (Some e, s4) \<Rightarrow> (Inl e, s4)
             | (None, s4) \<Rightarrow> (Inr (views_of (fetch s4 result_ref)), s4)))))"

definition analyze_attack_site_preference_st ::
  "(rat \<Rightarrow> rat) \<Rightarrow> store \<Rightarrow> pyval list \<Rightarrow> (py_error + (pyval \<times> pyval site_view) list) \<times> store" where
  "analyze_attack_site_preference_st fl s0 series_data =
     (case alloc (CGroups []) s0 of (groups_ref, s1) \<Rightarrow>
      (case loop_st (add_series_plants_st groups_ref) series_data s1 of
         (Some e, s2) \<Rightarrow> (Inl e, s2)
       | (None, s2) \<Rightarrow>
           (case alloc (CViews []) s2 of (result_ref, s3) \<Rightarrow>
            (case loop_st (update_at views_of CViews result_ref (add_site_view fl))
                    (groups_of (fetch s3 groups_ref)) s3 of
               (Some e, s4) \<Rightarrow> (Inl e, s4)
             | (None, s4) \<Rightarrow> (Inr (views_of (fetch s4 result_ref)), s4)))))"

subsection \<open>Opening duels\<close>

text \<open>The two updates of one kill: the killer's counter, then the victim's.\<close>

definition count_first_kill :: "(pyval \<times> nat \<times> nat) list \<Rightarrow> pyval \<Rightarrow> py_error + (pyval \<times> nat \<times> nat) list" where
  "count_first_kill player_stats killer =
     (if truthy killer
      then (if hashable killer then Inr (add_first_kill player_stats killer) else Inl TypeError)
      else Inr player_stats)"

definition count_first_death :: "(pyval \<times> nat \<times> nat) list \<Rightarrow> pyval \<Rightarrow> py_error + (pyval \<times> nat \<times> nat) list" where
  "count_first_death player_stats victim =
     (if truthy victim
      then (if hashable victim then Inr (add_first_death player_stats victim) else Inl TypeError)
      else Inr player_stats)"

definition add_kill_st :: "nat \<Rightarrow> pyval \<Rightarrow> store \<Rightarrow> py_error option \<times> store" where
  "add_kill_st stats_ref kill s =
     (case py_get kill ''killer'' PNone of
        Inl e \<Rightarrow> (Some e, s)
      | Inr killer \<Rightarrow>
     (case py_get kill ''victim'' PNone of
        Inl e \<Rightarrow> (Some e, s)
      | Inr victim \<Rightarrow>
     (case update_at stats_of CStats stats_ref count_first_kill killer s of
        (Some e, s1) \<Rightarrow> (Some e, s1)
      | (None, s1) \<Rightarrow> update_at stats_of CStats stats_ref count_first_death victim s1)))"

definition add_series_kills_st :: "nat \<Rightarrow> pyval \<Rightarrow> store \<Rightarrow> py_error option \<times> store" where
  "add_series_kills_st stats_ref series s =
     (case series_kills series of
        Inl e \<Rightarrow> (Some e, s)
      | Inr kill_list \<Rightarrow>
          (case py_iter kill_list of
             Inl e \<Rightarrow> (Some e, s)
           | Inr ks \<Rightarrow> loop_st (add_kill_st stats_ref) ks s))"

definition analyze_opening_duels_st ::
  "store \<Rightarrow> pyval list \<Rightarrow> (py_error + (pyval \<times> duel_entry) list) \<times> store" where
  "analyze_opening_duels_st s0 series_data =
     (case alloc (CStats []) s0 of (stats_ref, s1) \<Rightarrow>
      (case loop_st (add_series_kills_st stats_ref) series_data s1 of
         (Some e, s2) \<Rightarrow> (Inl e, s2)
       | (None, s2) \<Rightarrow>
           (case alloc (CDuels []) s2 of (result_ref, s3) \<Rightarrow>
            (case loop_st (update_at duels_of CDuels result_ref
                             (\<lambda>result entry. Inr (add_duel_entry result entry)))
                    (stats_of (fetch s3 stats_ref)) s3 of
               (Some e, s4) \<Rightarrow> (Inl e, s4)
             | (None, s4) \<Rightarrow>
                 (Inr (sort_key (\<lambda>x. - net (snd x)) (duels_of (fetch s4 result_ref))), s4)))))"

subsection \<open>Composition frequency\<close>

definition add_map_comps_st :: "nat \<Rightarrow> pyval \<Rightarrow> pyval \<Rightarrow> store \<Rightarrow> py_error option \<times> store" where
  "add_map_comps_st groups_ref comps map_info s =
     (case py_items comps of
        Inl e \<Rightarrow> (Some e, s)
      | Inr items \<Rightarrow>
          loop_st (update_at groups_of CGroups groups_ref (add_team_comp (comp_map_name map_info)))
            items s)"

definition add_series_comps_st :: "nat \<Rightarrow> pyval \<Rightarrow> store \<Rightarrow> py_error option \<times> store" where
  "add_series_comps_st groups_ref series s =
     (case py_get series ''end_state'' (PDict []) of
        Inl e \<Rightarrow> (Some e, s)
      | Inr end_state \<Rightarrow>
     (case py_get end_state ''maps'' (PList []) of
        Inl e \<Rightarrow> (Some e, s)
      | Inr series_maps \<Rightarrow>
     (case py_get end_state ''comps'' (PDict []) of
        Inl e \<Rightarrow> (Some e, s)
      | Inr comps \<Rightarrow>
          (if truthy series_maps \<and> truthy comps
           then (case py_iter series_maps of
                   Inl e \<Rightarrow> (Some e, s)
                 | Inr infos \<Rightarrow> loop_st (add_map_comps_st groups_ref comps) infos s)
           else (None, s)))))"

text \<open>The cell of the second loop holds its two variables, \<^verbatim>\<open>result\<close> and
  \<^verbatim>\<open>insufficient_data\<close>.\<close>

definition analyze_comp_frequency_st :: "store \<Rightarrow> pyval list \<Rightarrow> (py_error + comp_frequency) \<times> store" where
  "analyze_comp_frequency_st s0 series_data =
     (case alloc (CGroups []) s0 of (groups_ref, s1) \<Rightarrow>
      (case loop_st (add_series_comps_st groups_ref) series_data s1 of
         (Some e, s2) \<Rightarrow> (Inl e, s2)
       | (None, s2) \<Rightarrow>
           (case alloc (CFreq \<lparr>by_map = [], insufficient_data = True\<rparr>) s2 of (result_ref, s3) \<Rightarrow>
            (case loop_st (update_at freq_of CFreq result_ref add_comp_view)
                    (groups_of (fetch s3 groups_ref)) s3 of
               (Some e, s4) \<Rightarrow> (Inl e, s4)
             | (None, s4) \<Rightarrow> (Inr (freq_of (fetch s4 result_ref)), s4)))))"

text \<open>
  A store statement follows a statement of the first model on the object at an
  address: from a store that has the address, it keeps the size of the store, raises
  when and what the other raises, and else leaves at the address what the other returns.
\<close>

definition follows ::
  "(cell \<Rightarrow> 'acc) \<Rightarrow> nat \<Rightarrow> ('x \<Rightarrow> store \<Rightarrow> py_error option \<times> store)
     \<Rightarrow> ('acc \<Rightarrow> 'x \<Rightarrow> py_error + 'acc) \<Rightarrow> bool" where
  "follows proj a body_st body =
     (\<forall>x s. a < length s \<longrightarrow>
        (case body_st x s of
           (err, s') \<Rightarrow>
             length s' = length s
             \<and> (case body (proj (fetch s a)) x of
                  Inl e \<Rightarrow> err = Some e
                | Inr acc' \<Rightarrow> err = None \<and> proj (fetch s' a) = acc')))"

section \<open>Sample inputs\<close>

text \<open>Three event lines and what \<^verbatim>\<open>json.loads\<close> makes of them; any other line is
  rejected by this decoder.\<close>

definition kill_line :: string where
  \<open>kill_line = ''{"type": "kill", "killer": "X", "victim": "Y", "round_id": 1}''\<close>

definition kill_event :: pyval where
  "kill_event =
     PDict [(PStr ''type'', PStr ''kill''), (PStr ''killer'', PStr ''X''),
            (PStr ''victim'', PStr ''Y''), (PStr ''round_id'', PInt 1)]"

definition plant_line :: string where
  \<open>plant_line = ''{"event_type": "Spike_Planted", "map": "Bind", "site": "A"}''\<close>

definition plant_event :: pyval where
  "plant_event =
     PDict [(PStr ''event_type'', PStr ''Spike_Planted''), (PStr ''map'', PStr ''Bind''),
            (PStr ''site'', PStr ''A'')]"

definition null_site_line :: string where
  \<open>null_site_line = ''{"type": "plant_spike", "map": "", "map_name": "Bind", "site": null}''\<close>

definition null_site_event :: pyval where
  "null_site_event =
     PDict [(PStr ''type'', PStr ''plant_spike''), (PStr ''map'', PStr ''''),
            (PStr ''map_name'', PStr ''Bind''), (PStr ''site'', PNone)]"

definition sample_loads :: "string \<Rightarrow> pyval option" where
  "sample_loads =
     map_of [(kill_line, kill_event), (plant_line, plant_event), (null_site_line, null_site_event)]"

text \<open>Match bundles, as \<^verbatim>\<open>main.py\<close> assembles them.\<close>

definition end_state_with_maps :: "pyval list \<Rightarrow> pyval" where
  "end_state_with_maps ms =
     PDict [(PStr ''maps'', PList ms), (PStr ''comps'', PDict []), (PStr ''players'', PList [])]"

definition ascent_bundle :: pyval where
  "ascent_bundle = series_bundle ''s1'' no_facts (end_state_with_maps [PStr ''Ascent''])"




section \<open>Notions the properties are stated with\<close>


definition kill_fact :: "string \<Rightarrow> string \<Rightarrow> pyval" where
  "kill_fact killer victim = PDict [(PStr ''killer'', PStr killer), (PStr ''victim'', PStr victim)]"

definition duel_bundle :: pyval where
  "duel_bundle =
     series_bundle ''s4''
       (no_facts\<lparr>kills := [kill_fact ''X'' ''Y'', kill_fact ''Y'' ''X'', kill_fact ''Z'' ''unknown'']\<rparr>)
       empty_end_state"

text \<open>The keys of a dict are pairwise different under Python equality.\<close>

fun distinct_keys :: "pyval list \<Rightarrow> bool" where
  "distinct_keys [] = True"
| "distinct_keys (k # ks) = (list_all (\<lambda>k'. \<not> key_eq k k') ks \<and> distinct_keys ks)"

text \<open>Every kill fact of every match, in order.\<close>

definition all_kills :: "pyval list \<Rightarrow> pyval list" where
  "all_kills series_data =
     concat (map (\<lambda>series.
        case series_kills series of
          Inl e \<Rightarrow> []
        | Inr kill_list \<Rightarrow> (case py_iter kill_list of Inl e \<Rightarrow> [] | Inr ks \<Rightarrow> ks))
      series_data)"

text \<open>The players a kill fact names: its killer, then its victim, each if truthy.\<close>

definition kill_players :: "pyval \<Rightarrow> pyval list" where
  "kill_players kill =
     (case py_get kill ''killer'' PNone of
        Inl e \<Rightarrow> []
      | Inr killer \<Rightarrow> (if truthy killer then [killer] else []))
     @ (case py_get kill ''victim'' PNone of
          Inl e \<Rightarrow> []
        | Inr victim \<Rightarrow> (if truthy victim then [victim] else []))"

text \<open>The players in the order in which they are first met.\<close>

definition see :: "pyval list \<Rightarrow> pyval \<Rightarrow> pyval list" where
  "see seen p = (if list_ex (\<lambda>q. key_eq q p) seen then seen else seen @ [p])"

definition first_encountered :: "pyval list \<Rightarrow> pyval list" where
  "first_encountered series_data = foldl see [] (concat (map kill_players (all_kills series_data)))"

definition team_end_state :: pyval where
  "team_end_state =
     PDict [(PStr ''maps'', PList [PStr ''Ascent'', PDict [(PStr ''name'', PStr ''Bind'')]]),
            (PStr ''comps'',
             PDict [(PStr ''A'', PDict [(PStr ''agents'', PList [PStr ''Sova'', PStr ''Jett''])]),
                    (PStr ''B'', PDict [(PStr ''agents'', PList [PStr ''Jett'', PStr ''Sova''])])]),
            (PStr ''players'', PList [])]"

definition comp_bundle :: pyval where
  "comp_bundle = series_bundle ''s5'' no_facts team_end_state"

text \<open>A team of the end state's \<^verbatim>\<open>comps\<close> has a non-empty agent list.\<close>

definition has_agents :: "pyval \<times> pyval \<Rightarrow> bool" where
  "has_agents item =
     (case py_get (snd item) ''agents'' (PList []) of Inl e \<Rightarrow> False | Inr agents \<Rightarrow> truthy agents)"

text \<open>A match contributes to the composition frequency: its end state has a non-empty
  map list and a team with a non-empty agent list.\<close>

definition contributes :: "pyval \<Rightarrow> bool" where
  "contributes series =
     (case py_get series ''end_state'' (PDict []) of
        Inl e \<Rightarrow> False
      | Inr end_state \<Rightarrow>
     (case py_get end_state ''maps'' (PList []) of
        Inl e \<Rightarrow> False
      | Inr series_maps \<Rightarrow>
     (case py_get end_state ''comps'' (PDict []) of
        Inl e \<Rightarrow> False
      | Inr comps \<Rightarrow>
          truthy series_maps
          \<and> (case py_items comps of Inl e \<Rightarrow> False | Inr items \<Rightarrow> list_ex has_agents items))))"

text \<open>Views as the renderer receives them; Bind was met before Ascent.\<close>

definition no_maps_played :: "string map_pool" where
  "no_maps_played = \<lparr>maps = [], total = 0\<rparr>"

definition bind_first_view :: "(string \<times> string site_view) list" where
  "bind_first_view =
     [(''Bind'', \<lparr>counts = [(''A'', 2), (''B'', 1)],
                  percentages = [(''A'', 667 / 10), (''B'', 333 / 10)], site_total = 3\<rparr>),
      (''Ascent'', \<lparr>counts = [(''C'', 1)], percentages = [(''C'', 100)], site_total = 1\<rparr>)]"

text \<open>The events of a match with two plants on Bind, the second with a null site.\<close>

definition null_site_bundle :: pyval where
  "null_site_bundle =
     series_bundle ''s6''
       (parse_events sample_loads [(''events.jsonl'', [plant_line, null_site_line])])
       empty_end_state"

text \<open>Every spike-plant fact of every match, in order, with its map and its site.\<close>

definition all_plants :: "pyval list \<Rightarrow> pyval list" where
  "all_plants series_data =
     concat (map (\<lambda>series.
        case series_plants series of
          Inl e \<Rightarrow> []
        | Inr plant_list \<Rightarrow> (case py_iter plant_list of Inl e \<Rightarrow> [] | Inr plants \<Rightarrow> plants))
      series_data)"

definition plant_map :: "pyval \<Rightarrow> pyval" where
  "plant_map plant = (case py_get plant ''map'' (PStr ''unknown'') of Inl e \<Rightarrow> PNone | Inr m \<Rightarrow> m)"

definition plant_site :: "pyval \<Rightarrow> pyval" where
  "plant_site plant = (case py_get plant ''site'' (PStr ''unknown'') of Inl e \<Rightarrow> PNone | Inr s \<Rightarrow> s)"

text \<open>The sites of the plants on a map, in order, and the number of the plants at a site.\<close>

definition sites_on :: "pyval \<Rightarrow> pyval list \<Rightarrow> pyval list" where
  "sites_on m series_data =
     map plant_site (filter (\<lambda>plant. key_eq m (plant_map plant)) (all_plants series_data))"

definition count_of :: "pyval \<Rightarrow> pyval list \<Rightarrow> nat" where
  "count_of s sites = length (filter (key_eq s) sites)"

text \<open>One match with three plants on Bind, at the sites A, A and B.\<close>

definition plant_fact :: "string \<Rightarrow> string \<Rightarrow> pyval" where
  "plant_fact m s = PDict [(PStr ''map'', PStr m), (PStr ''site'', PStr s)]"

definition bind_bundle :: pyval where
  "bind_bundle =
     series_bundle ''s8''
       (no_facts\<lparr>spike_plants := [plant_fact ''Bind'' ''A'', plant_fact ''Bind'' ''A'', plant_fact ''Bind'' ''B'']\<rparr>)
       empty_end_state"

section \<open>Properties of the event parser\<close>

lemma is_spike_plant_dict: "is_spike_plant e = Inr b \<Longrightarrow> \<exists>kvs. e = PDict kvs"
  by (cases e) (simp_all add: is_spike_plant_def)

lemma is_kill_of_plant: "is_spike_plant e = Inr b \<Longrightarrow> \<exists>k. is_kill e = Inr k"
  by (cases e) (auto simp add: is_spike_plant_def is_kill_def split: sum.splits if_splits)

lemma plant_fields_dict: "\<exists>d. plant_fields (PDict kvs) = Inr (PDict d) \<and> d \<noteq> []"
  by (simp add: plant_fields_def)

lemma kill_fields_dict: "\<exists>d. kill_fields (PDict kvs) = Inr (PDict d) \<and> d \<noteq> []"
  by (simp add: kill_fields_def)

lemma extract_plant_info_dict:
  "extract_plant_info (PDict kvs) \<noteq> PNone \<and> truthy (extract_plant_info (PDict kvs))"
  by (simp add: extract_plant_info_def plant_fields_def)

lemma extract_kill_info_dict:
  "extract_kill_info (PDict kvs) \<noteq> PNone \<and> truthy (extract_kill_info (PDict kvs))"
  by (simp add: extract_kill_info_def kill_fields_def)

lemma sample_lines_not_blank:
  "\<not> is_blank kill_line" "\<not> is_blank plant_line" "\<not> is_blank null_site_line" "\<not> is_blank ''not json''"
  by code_simp+

lemma sample_loads_simps:
  "sample_loads kill_line = Some kill_event"
  "sample_loads plant_line = Some plant_event"
  "sample_loads null_site_line = Some null_site_event"
  "sample_loads ''not json'' = None"
  by code_simp+

lemma sample_classes:
  "is_spike_plant plant_event = Inr True" "is_kill plant_event = Inr False"
  "is_spike_plant kill_event = Inr False" "is_kill kill_event = Inr True"
  "is_spike_plant null_site_event = Inr True" "is_kill null_site_event = Inr False"
  by code_simp+

text \<open>
  C1 does not hold of the code. The handler for \<^verbatim>\<open>json.JSONDecodeError\<close>, which only
  \<^verbatim>\<open>json.loads(line)\<close> raises, is outside the loop over the lines, so a line that is not
  valid JSON is not skipped: it ends the reading of its file. Here the kill line, which
  alone yields one kill fact and one round group, yields nothing when it follows a
  malformed line.
\<close>

theorem malformed_line_hides_later_lines:
  "\<not> is_blank ''not json'' \<and> sample_loads ''not json'' = None
   \<and> kills (parse_events sample_loads [(''events.jsonl'', [kill_line])]) = [extract_kill_info kill_event]
   \<and> events_by_round (parse_events sample_loads [(''events.jsonl'', [kill_line])]) = [(PInt 1, [kill_event])]
   \<and> kills (parse_events sample_loads [(''events.jsonl'', [''not json'', kill_line])]) = []
   \<and> events_by_round (parse_events sample_loads [(''events.jsonl'', [''not json'', kill_line])]) = []"
  by code_simp

text \<open>
  The extent of the loss: every line of the file after the first line that is neither
  blank nor valid JSON is dropped, whatever it holds; the lines before it and the other
  files are read as usual.
\<close>

lemma process_file_truncate:
  assumes "\<not> is_blank bad" "loads bad = None"
  shows "process_file loads fname st (pre @ bad # post) = process_file loads fname st pre"
  using assms
proof (induction pre arbitrary: st)
  case Nil
  then show ?case by (simp add: process_line_def)
next
  case (Cons l pre)
  then show ?case by (simp split: prod.splits option.splits)
qed

lemma parse_events_truncate:
  assumes "\<not> is_blank bad" and "loads bad = None"
  shows "parse_events loads (files1 @ (fname, pre @ bad # post) # files2)
       = parse_events loads (files1 @ (fname, pre) # files2)"
  using assms by (simp add: parse_events_def process_file_truncate)

text \<open>
  C7, as stated, fails twice. A site that is present but null is passed on as null, not
  replaced by \<^verbatim>\<open>"unknown"\<close>; and a map that is present, not null, but empty is passed
  over for the next alternative.
\<close>

theorem null_site_is_not_unknown:
  "is_spike_plant null_site_event = Inr True
   \<and> py_get null_site_event ''site'' PNone = Inr PNone
   \<and> py_get (extract_plant_info null_site_event) ''site'' (PStr ''absent'') = Inr PNone
   \<and> py_get null_site_event ''map'' PNone = Inr (PStr '''')
   \<and> py_get (extract_plant_info null_site_event) ''map'' (PStr ''absent'') = Inr (PStr ''Bind'')"
  by code_simp

text \<open>
  C7, amended: for every record classified as a spike plant, the map is the first truthy
  value among the fields \<^verbatim>\<open>"map"\<close> and \<^verbatim>\<open>"map_name"\<close>, else \<^verbatim>\<open>"unknown"\<close>; the site is the
  field \<^verbatim>\<open>"site"\<close> when it is present and not null, and \<^verbatim>\<open>"unknown"\<close> when it is absent;
  round, timestamp and round time are the fields \<^verbatim>\<open>"round_id"\<close>, \<^verbatim>\<open>"timestamp"\<close> and
  \<^verbatim>\<open>"round_time"\<close>, null when absent.
\<close>

theorem spike_plant_attributes:
  assumes "is_spike_plant event = Inr True"
  shows "\<exists>kvs site. event = PDict kvs
     \<and> extract_plant_info event = PDict
         [(PStr ''map'',
           py_or (py_or (dict_get kvs ''map'' PNone) (dict_get kvs ''map_name'' PNone)) (PStr ''unknown'')),
          (PStr ''site'', site),
          (PStr ''round'', dict_get kvs ''round_id'' PNone),
          (PStr ''timestamp'', dict_get kvs ''timestamp'' PNone),
          (PStr ''round_time'', dict_get kvs ''round_time'' PNone),
          (PStr ''raw_event'', event)]
     \<and> (\<forall>v. dict_lookup kvs (PStr ''site'') = Some v \<longrightarrow> v \<noteq> PNone \<longrightarrow> site = v)
     \<and> (dict_lookup kvs (PStr ''site'') = None \<longrightarrow> site = PStr ''unknown'')"
proof -
  from assms obtain kvs where ev: "event = PDict kvs"
    using is_spike_plant_dict by blast
  show ?thesis
    by (rule exI [of _ kvs], rule exI [of _ "dict_get kvs ''site'' (PStr ''unknown'')"])
       (simp add: ev extract_plant_info_def plant_fields_def py_or_def dict_get_def)
qed

theorem spike_plant_attributes_witness:
  "is_spike_plant plant_event = Inr True
   \<and> extract_plant_info plant_event = PDict
         [(PStr ''map'', PStr ''Bind''), (PStr ''site'', PStr ''A''), (PStr ''round'', PNone),
          (PStr ''timestamp'', PNone), (PStr ''round_time'', PNone), (PStr ''raw_event'', plant_event)]"
proof -
  have c: "is_spike_plant plant_event = Inr True"
    by (simp add: sample_classes)
  from spike_plant_attributes [OF c] obtain kvs site where
    ev: "plant_event = PDict kvs"
    and ex: "extract_plant_info plant_event = PDict
         [(PStr ''map'',
           py_or (py_or (dict_get kvs ''map'' PNone) (dict_get kvs ''map_name'' PNone)) (PStr ''unknown'')),
          (PStr ''site'', site),
          (PStr ''round'', dict_get kvs ''round_id'' PNone),
          (PStr ''timestamp'', dict_get kvs ''timestamp'' PNone),
          (PStr ''round_time'', dict_get kvs ''round_time'' PNone),
          (PStr ''raw_event'', plant_event)]"
    and s1: "\<forall>v. dict_lookup kvs (PStr ''site'') = Some v \<longrightarrow> v \<noteq> PNone \<longrightarrow> site = v"
    by blast
  from ev have kvs: "kvs = [(PStr ''event_type'', PStr ''Spike_Planted''), (PStr ''map'', PStr ''Bind''),
            (PStr ''site'', PStr ''A'')]"
    by (simp add: plant_event_def)
  have "site = PStr ''A''"
    using s1 by (simp add: kvs key_eq_def)
  with ex c show ?thesis
    by (simp add: kvs dict_get_def key_eq_def py_or_def)
qed

text \<open>
  C10: a record for which the classification returns is a dict, and on a dict the
  extraction helpers only look fields up: their \<^verbatim>\<open>except\<close> branch is not taken and they
  return a non-empty dict, never \<^verbatim>\<open>None\<close>. So the line of a record classified as a spike
  plant adds exactly one plant fact, and that of a record classified as a kill exactly
  one kill fact.
\<close>

theorem classified_record_emits_one_fact:
  assumes dec: "\<not> is_blank line" "loads line = Some event"
    and cls: "is_spike_plant event = Inr p"
  shows "\<exists>k. is_kill event = Inr k
     \<and> (\<forall>e. plant_fields event \<noteq> Inl e) \<and> extract_plant_info event \<noteq> PNone
     \<and> (\<forall>e. kill_fields event \<noteq> Inl e) \<and> extract_kill_info event \<noteq> PNone
     \<and> spike_plants (snd (process_line loads fname st line))
         = spike_plants st @ (if p then [extract_plant_info event] else [])
     \<and> kills (snd (process_line loads fname st line))
         = kills st @ (if k then [extract_kill_info event] else [])"
proof -
  from cls obtain kvs where ev: "event = PDict kvs"
    using is_spike_plant_dict by blast
  from cls obtain k where k: "is_kill event = Inr k"
    using is_kill_of_plant by blast
  have pf: "\<forall>e. plant_fields event \<noteq> Inl e"
    using plant_fields_dict [of kvs] ev by auto
  have kf: "\<forall>e. kill_fields event \<noteq> Inl e"
    using kill_fields_dict [of kvs] ev by auto
  have tp: "extract_plant_info event \<noteq> PNone" "truthy (extract_plant_info event)"
    using extract_plant_info_dict [of kvs] ev by simp_all
  have tk: "extract_kill_info event \<noteq> PNone" "truthy (extract_kill_info event)"
    using extract_kill_info_dict [of kvs] ev by simp_all
  have sk: "\<exists>ks. sample_keys event = Inr ks"
    using ev by simp
  have rd: "\<exists>r. py_get event ''round_id'' (PStr ''unknown'') = Inr r"
    using ev by simp
  have sp: "spike_plants (snd (process_line loads fname st line))
         = spike_plants st @ (if p then [extract_plant_info event] else [])"
    using dec cls k tp tk sk rd
    by (auto simp add: process_line_def Let_def split: sum.splits)
  have kl: "kills (snd (process_line loads fname st line))
         = kills st @ (if k then [extract_kill_info event] else [])"
    using dec cls k tp tk sk rd
    by (auto simp add: process_line_def Let_def split: sum.splits)
  from k pf kf tp tk sp kl show ?thesis by blast
qed

theorem classified_record_emits_one_fact_witness:
  "\<not> is_blank plant_line \<and> sample_loads plant_line = Some plant_event
   \<and> is_spike_plant plant_event = Inr True
   \<and> extract_plant_info plant_event \<noteq> PNone
   \<and> spike_plants (snd (process_line sample_loads ''events.jsonl'' no_facts plant_line))
       = [extract_plant_info plant_event]"
proof -
  have b: "\<not> is_blank plant_line"
    by (simp add: sample_lines_not_blank)
  have l: "sample_loads plant_line = Some plant_event"
    by (simp add: sample_loads_simps)
  have c: "is_spike_plant plant_event = Inr True"
    by (simp add: sample_classes)
  from classified_record_emits_one_fact
         [where line = plant_line and loads = sample_loads and event = plant_event
            and p = True and fname = "''events.jsonl''" and st = no_facts, OF b l c]
       b l c
  show ?thesis by (auto simp add: no_facts_def)
qed

section \<open>Properties of the map pool\<close>











section \<open>The two site views\<close>

lemma key_eq_refl: "key_eq a a"
  by (simp add: key_eq_def split: option.splits)

lemma key_eq_sym: "key_eq a b \<Longrightarrow> key_eq b a"
  by (auto simp add: key_eq_def split: option.splits)

lemma key_eq_trans: "key_eq a b \<Longrightarrow> key_eq b c \<Longrightarrow> key_eq a c"
  by (auto simp add: key_eq_def split: option.splits)

lemma see_Cons: "see (a # xs) p = (if key_eq a p then a # xs else a # see xs p)"
  by (simp add: see_def)

lemma set_see: "set (see xs p) \<subseteq> insert p (set xs)"
  by (auto simp add: see_def)

lemma distinct_keys_append:
  "distinct_keys (xs @ ys) \<longleftrightarrow>
     distinct_keys xs \<and> distinct_keys ys \<and> (\<forall>x \<in> set xs. \<forall>y \<in> set ys. \<not> key_eq x y)"
  by (induction xs) (auto simp add: list_all_iff)

lemma distinct_keys_see: "distinct_keys xs \<Longrightarrow> distinct_keys (see xs p)"
  by (auto simp add: see_def distinct_keys_append list_ex_iff)

lemma keys_dd_append: "map fst (dd_append d k v) = see (map fst d) k"
  by (induction d k v rule: dd_append.induct) (simp_all add: see_Cons, simp add: see_def)

lemma dd_append_cases:
  assumes "distinct_keys (map fst d)" and "(m, ss) \<in> set (dd_append d k v)"
  shows "(key_eq m k \<and> (\<exists>ss0. (m, ss0) \<in> set d \<and> ss = ss0 @ [v]))
       \<or> (\<not> key_eq m k \<and> (m, ss) \<in> set d)
       \<or> (m = k \<and> ss = [v] \<and> (\<forall>m' \<in> fst ` set d. \<not> key_eq m' k))"
  using assms
proof (induction d k v rule: dd_append.induct)
  case (1 k v)
  then show ?case by simp
next
  case (2 k' vs d k v)
  show ?case
  proof (cases "key_eq k' k")
    case True
    with "2.prems" have "(m, ss) = (k', vs @ [v]) \<or> (m, ss) \<in> set d"
      by simp
    then show ?thesis
    proof
      assume "(m, ss) = (k', vs @ [v])"
      with True show ?thesis by auto
    next
      assume in_d: "(m, ss) \<in> set d"
      with "2.prems"(1) have "\<not> key_eq k' m"
        by (auto simp add: list_all_iff)
      with True have "\<not> key_eq m k"
        using key_eq_sym key_eq_trans by blast
      with in_d show ?thesis by simp
    qed
  next
    case False
    with "2.prems" have "(m, ss) = (k', vs) \<or> (m, ss) \<in> set (dd_append d k v)"
      by simp
    then show ?thesis
    proof
      assume "(m, ss) = (k', vs)"
      with False show ?thesis by auto
    next
      assume "(m, ss) \<in> set (dd_append d k v)"
      with "2.IH" False "2.prems"(1) show ?thesis
        by (auto simp add: list_all_iff)
    qed
  qed
qed

text \<open>Appending to a \<^verbatim>\<open>defaultdict(list)\<close> under the key \<open>f x\<close> for each \<open>x\<close> groups the
  list by key.\<close>

lemma grouping:
  fixes f g :: "'a \<Rightarrow> pyval"
  defines "G \<equiv> \<lambda>xs. foldl (\<lambda>d x. dd_append d (f x) (g x)) [] xs"
  shows "distinct_keys (map fst (G xs))
     \<and> (\<forall>(m, ss) \<in> set (G xs). ss = map g (filter (\<lambda>x. key_eq m (f x)) xs) \<and> ss \<noteq> [])
     \<and> (\<forall>x \<in> set xs. \<exists>m \<in> fst ` set (G xs). key_eq m (f x))"
proof (induction xs rule: rev_induct)
  case Nil
  then show ?case by (simp add: G_def)
next
  case (snoc x xs)
  let ?d = "G xs"
  have step: "G (xs @ [x]) = dd_append ?d (f x) (g x)"
    by (simp add: G_def)
  from snoc have dk: "distinct_keys (map fst ?d)"
    and grp: "\<forall>(m, ss) \<in> set ?d. ss = map g (filter (\<lambda>x. key_eq m (f x)) xs) \<and> ss \<noteq> []"
    and cov: "\<forall>y \<in> set xs. \<exists>m \<in> fst ` set ?d. key_eq m (f y)"
    by simp_all
  have keys: "map fst (G (xs @ [x])) = see (map fst ?d) (f x)"
    by (simp add: step keys_dd_append)
  have c1: "distinct_keys (map fst (G (xs @ [x])))"
    unfolding keys using dk by (rule distinct_keys_see)
  have c2: "\<forall>(m, ss) \<in> set (G (xs @ [x])).
              ss = map g (filter (\<lambda>y. key_eq m (f y)) (xs @ [x])) \<and> ss \<noteq> []"
  proof (clarify)
    fix m ss assume "(m, ss) \<in> set (G (xs @ [x]))"
    then have "(m, ss) \<in> set (dd_append ?d (f x) (g x))"
      by (simp add: step)
    from dd_append_cases [OF dk this]
    show "ss = map g (filter (\<lambda>y. key_eq m (f y)) (xs @ [x])) \<and> ss \<noteq> []"
    proof (elim disjE conjE exE)
      fix ss0 assume "key_eq m (f x)" "(m, ss0) \<in> set ?d" "ss = ss0 @ [g x]"
      with grp show ?thesis by auto
    next
      assume "\<not> key_eq m (f x)" "(m, ss) \<in> set ?d"
      with grp show ?thesis by auto
    next
      assume new: "m = f x" "ss = [g x]" "\<forall>m' \<in> fst ` set ?d. \<not> key_eq m' (f x)"
      have "filter (\<lambda>y. key_eq m (f y)) xs = []"
      proof (rule ccontr)
        assume "filter (\<lambda>y. key_eq m (f y)) xs \<noteq> []"
        then obtain y where y: "y \<in> set xs" "key_eq m (f y)"
          by (auto simp add: filter_empty_conv)
        from cov y(1) obtain m' where m': "m' \<in> fst ` set ?d" "key_eq m' (f y)"
          by blast
        from y(2) new(1) have "key_eq (f y) (f x)"
          using key_eq_sym by blast
        with m'(2) have "key_eq m' (f x)"
          using key_eq_trans by blast
        with new(3) m'(1) show False by blast
      qed
      with new show ?thesis by (simp add: key_eq_refl)
    qed
  qed
  have c3: "\<forall>y \<in> set (xs @ [x]). \<exists>m \<in> fst ` set (G (xs @ [x])). key_eq m (f y)"
  proof
    fix y assume y: "y \<in> set (xs @ [x])"
    have ks: "fst ` set (G (xs @ [x])) = set (see (map fst ?d) (f x))"
      using keys by (metis set_map)
    show "\<exists>m \<in> fst ` set (G (xs @ [x])). key_eq m (f y)"
    proof (cases "y \<in> set xs")
      case True
      with cov obtain m where "m \<in> fst ` set ?d" "key_eq m (f y)" by blast
      then show ?thesis
        unfolding ks by (auto simp add: see_def)
    next
      case False
      with y have "y = x" by simp
      then show ?thesis
        unfolding ks by (auto simp add: see_def list_ex_iff key_eq_refl)
    qed
  qed
  from c1 c2 c3 show ?case by blast
qed


lemma tally_dd_append:
  "tally (map (\<lambda>(k, vs). (k, length vs)) d) k = map (\<lambda>(k, vs). (k, length vs)) (dd_append d k v)"
  by (induction d k v rule: dd_append.induct) simp_all

lemma foldl_tally_groups:
  "foldl tally (map (\<lambda>(k, vs). (k, length vs)) d) xs
     = map (\<lambda>(k, vs). (k, length vs)) (foldl (\<lambda>d x. dd_append d x x) d xs)"
proof (induction xs arbitrary: d)
  case Nil
  then show ?case by simp
next
  case (Cons x xs)
  from Cons [of "dd_append d x x"] show ?case
    by (simp add: tally_dd_append [of d x x])
qed

lemma distinct_keys_iff:
  "distinct_keys xs \<longleftrightarrow> distinct xs \<and> (\<forall>x \<in> set xs. \<forall>y \<in> set xs. x \<noteq> y \<longrightarrow> \<not> key_eq x y)"
proof (induction xs)
  case Nil
  then show ?case by simp
next
  case (Cons a xs)
  show ?case
    unfolding distinct_keys.simps Cons list_all_iff
    using key_eq_refl key_eq_sym by auto
qed

lemma map_insort_key_set: "set (map h (insort_key f x xs)) = insert (h x) (set (map h xs))"
  by (simp add: set_insort_key)

lemma distinct_map_insort_key:
  "distinct (map h (insort_key f x xs)) \<longleftrightarrow> distinct (map h (x # xs))"
  by (induction xs) (auto simp add: set_insort_key)

lemma distinct_map_sort_key: "distinct (map h (sort_key f xs)) \<longleftrightarrow> distinct (map h xs)"
  by (induction xs) (simp_all add: distinct_map_insort_key)

lemma distinct_keys_sort_key:
  "distinct_keys (map h (sort_key f xs)) \<longleftrightarrow> distinct_keys (map h xs)"
  by (simp add: distinct_keys_iff distinct_map_sort_key)

lemma key_eq_not_na: "key_eq s x \<Longrightarrow> \<not> is_na s \<Longrightarrow> \<not> is_na x"
  by (cases x) (auto simp add: key_eq_def split: option.splits)

text \<open>What \<^verbatim>\<open>value_counts\<close> returns: each site that is not NA once, with the number of its
  occurrences.\<close>

lemma value_counts_counts:
  assumes "value_counts sites = Inr c"
  shows "distinct_keys (map fst c)
     \<and> (\<forall>(s, n) \<in> set c. \<not> is_na s \<and> 0 < n \<and> n = count_of s sites)
     \<and> (\<forall>s \<in> set sites. \<not> is_na s \<longrightarrow> (\<exists>s' \<in> fst ` set c. key_eq s' s))"
proof -
  let ?ys = "filter (\<lambda>x. \<not> is_na x) sites"
  let ?G = "foldl (\<lambda>d x. dd_append d x x) [] ?ys"
  let ?len = "\<lambda>(k :: pyval, vs :: pyval list). (k, length vs)"
  from assms have c: "c = sort_key (\<lambda>(k, n). - int n) (foldl tally [] ?ys)"
    by (auto simp add: value_counts_def split: if_splits)
  have t: "foldl tally [] ?ys = map ?len ?G"
    using foldl_tally_groups [of "[]" ?ys] by simp
  from grouping [of "\<lambda>x. x" "\<lambda>x. x" ?ys] have
    dk: "distinct_keys (map fst ?G)" and
    grp: "\<forall>(m, ss) \<in> set ?G. ss = filter (\<lambda>x. key_eq m x) ?ys \<and> ss \<noteq> []" and
    cov: "\<forall>x \<in> set ?ys. \<exists>m \<in> fst ` set ?G. key_eq m x"
    by simp_all
  have fstc: "map fst (map ?len ?G) = map fst ?G"
    by (simp add: comp_def case_prod_unfold)
  have setc: "set c = set (map ?len ?G)"
    by (simp add: c t)
  have c1: "distinct_keys (map fst c)"
    unfolding c t distinct_keys_sort_key fstc by (rule dk)
  have c2: "\<forall>(s, n) \<in> set c. \<not> is_na s \<and> 0 < n \<and> n = count_of s sites"
  proof (clarify)
    fix s n assume "(s, n) \<in> set c"
    then obtain ss where ss: "(s, ss) \<in> set ?G" "n = length ss"
      unfolding setc by auto
    from grp ss(1) have g: "ss = filter (\<lambda>x. key_eq s x) ?ys" "ss \<noteq> []"
      by auto
    from g obtain x where x: "x \<in> set ?ys" "key_eq s x"
      by (metis (mono_tags, lifting) filter_empty_conv)
    then have na: "\<not> is_na s"
      using key_eq_not_na [of x s] key_eq_sym by auto
    have "filter (\<lambda>x. key_eq s x) ?ys = filter (key_eq s) sites"
      using na key_eq_not_na [of s] by (auto simp add: filter_id_conv intro: filter_cong)
    with g ss(2) na show "\<not> is_na s \<and> 0 < n \<and> n = count_of s sites"
      by (simp add: count_of_def)
  qed
  have c3: "\<forall>s \<in> set sites. \<not> is_na s \<longrightarrow> (\<exists>s' \<in> fst ` set c. key_eq s' s)"
  proof (intro ballI impI)
    fix s assume "s \<in> set sites" "\<not> is_na s"
    then have "s \<in> set ?ys" by simp
    with cov obtain m where "m \<in> fst ` set ?G" "key_eq m s" by blast
    moreover have "fst ` set c = fst ` set ?G"
      unfolding setc by (metis fstc set_map)
    ultimately show "\<exists>s' \<in> fst ` set c. key_eq s' s" by blast
  qed
  from c1 c2 c3 show ?thesis by blast
qed


lemma add_plant_groups:
  assumes "add_plant d plant = Inr d'"
  shows "d' = dd_append d (plant_map plant) (plant_site plant)"
  using assms
  by (auto simp add: add_plant_def plant_map_def plant_site_def split: sum.splits if_splits)

lemma for_each_add_plant_groups:
  assumes "for_each add_plant plants d = Inr d'"
  shows "d' = foldl (\<lambda>d p. dd_append d (plant_map p) (plant_site p)) d plants"
  using assms
proof (induction plants arbitrary: d)
  case Nil
  then show ?case by simp
next
  case (Cons plant plants)
  from Cons.prems obtain d1 where
    a: "add_plant d plant = Inr d1" and b: "for_each add_plant plants d1 = Inr d'"
    by (auto split: sum.splits)
  from Cons.IH [OF b] add_plant_groups [OF a] show ?case by simp
qed

lemma for_each_add_series_plants_groups:
  assumes "for_each add_series_plants series_data d = Inr d'"
  shows "d' = foldl (\<lambda>d p. dd_append d (plant_map p) (plant_site p)) d (all_plants series_data)"
  using assms
proof (induction series_data arbitrary: d)
  case Nil
  then show ?case by (simp add: all_plants_def)
next
  case (Cons series rest)
  from Cons.prems obtain d1 where
    a: "add_series_plants d series = Inr d1" and b: "for_each add_series_plants rest d1 = Inr d'"
    by (auto split: sum.splits)
  from a obtain pl plants where
    k: "series_plants series = Inr pl" "py_iter pl = Inr plants" and
    f: "for_each add_plant plants d = Inr d1"
    by (auto simp add: add_series_plants_def split: sum.splits)
  have "all_plants (series # rest) = plants @ all_plants rest"
    using k by (simp add: all_plants_def)
  with Cons.IH [OF b] for_each_add_plant_groups [OF f] show ?case by simp
qed

lemma dict_set_fresh:
  "\<forall>k' \<in> set (map fst d). \<not> key_eq k' k \<Longrightarrow> dict_set d k v = d @ [(k, v)]"
  by (induction d) auto

text \<open>The second loop turns each group into the entry of its map.\<close>

lemma for_each_add_site_view_entries:
  assumes "for_each (add_site_view fl) plants_by_map result = Inr view"
    and "distinct_keys (map fst result @ map fst plants_by_map)"
    and "\<forall>(m, sites) \<in> set plants_by_map. sites \<noteq> []"
  shows "\<exists>vs. view = result @ vs
     \<and> list_all2 (\<lambda>(m, sites) (m', v). m' = m \<and> value_counts sites = Inr (counts v)
          \<and> site_total v = length sites
          \<and> percentages v = map (\<lambda>(k, c). (k, percentage fl c (length sites))) (counts v))
        plants_by_map vs"
  using assms
proof (induction plants_by_map arbitrary: result)
  case Nil
  then show ?case by simp
next
  case (Cons entry rest)
  obtain m sites where e: "entry = (m, sites)" by (cases entry)
  from Cons.prems(3) e have ne: "sites \<noteq> []" by simp
  from Cons.prems(1) obtain result1 where
    a: "add_site_view fl result (m, sites) = Inr result1" and
    b: "for_each (add_site_view fl) rest result1 = Inr view"
    by (auto simp add: e split: sum.splits)
  from a ne obtain c where c: "value_counts sites = Inr c" and
    r1: "result1 = dict_set result m
           \<lparr>counts = c, percentages = map (\<lambda>(k, v). (k, percentage fl v (length sites))) c,
            site_total = length sites\<rparr>"
    by (auto simp add: add_site_view_def split: sum.splits)
  from Cons.prems(2) e have fresh: "\<forall>k' \<in> set (map fst result). \<not> key_eq k' m"
    by (auto simp add: distinct_keys_append)
  let ?v = "\<lparr>counts = c, percentages = map (\<lambda>(k, v). (k, percentage fl v (length sites))) c,
            site_total = length sites\<rparr>"
  have r1': "result1 = result @ [(m, ?v)]"
    unfolding r1 using fresh by (rule dict_set_fresh)
  have dk: "distinct_keys (map fst result1 @ map fst rest)"
    unfolding r1' using Cons.prems(2) e by simp
  from Cons.prems(3) have ne': "\<forall>(m, sites) \<in> set rest. sites \<noteq> []" by simp
  from Cons.IH [OF b dk ne'] obtain vs where
    vs: "view = result1 @ vs" and
    l: "list_all2 (\<lambda>(m, sites) (m', v). m' = m \<and> value_counts sites = Inr (counts v)
          \<and> site_total v = length sites
          \<and> percentages v = map (\<lambda>(k, c). (k, percentage fl c (length sites))) (counts v))
        rest vs"
    by blast
  show ?case
    by (rule exI [of _ "(m, ?v) # vs"]) (simp add: vs r1' e l c)
qed


lemma list_all2_same_keys:
  assumes "list_all2 (\<lambda>x y. fst y = fst x \<and> Q x y) xs ys"
  shows "map fst ys = map fst xs"
  using assms by (induction rule: list_all2_induct) simp_all

lemma list_all2_right:
  assumes "list_all2 P xs ys" and "y \<in> set ys"
  shows "\<exists>x \<in> set xs. P x y"
  using assms by (induction rule: list_all2_induct) auto

text \<open>
  C2: the attack-site-preference view and the plant-site view of the same bundles are
  the same value (or the same exception), whatever the float rounding. When the view
  is computed it groups the spike plants by map, each map that has a plant once; for
  each map the total is the number of its plants, every site that is not NA is listed
  once with the number of the plants at it, and the percentage of a site is
  \<^verbatim>\<open>round(count / total * 100, 1)\<close>.
\<close>

theorem site_views_group_count_and_agree:
  "analyze_attack_site_preference fl series_data = analyze_plant_sites fl series_data
   \<and> (\<forall>view. analyze_plant_sites fl series_data = Inr view \<longrightarrow>
         distinct_keys (map fst view)
       \<and> (\<forall>plant \<in> set (all_plants series_data). \<exists>m \<in> fst ` set view. key_eq m (plant_map plant))
       \<and> (\<forall>(m, v) \<in> set view.
             site_total v = length (sites_on m series_data) \<and> 0 < site_total v
           \<and> distinct_keys (map fst (counts v))
           \<and> (\<forall>(s, c) \<in> set (counts v).
                 \<not> is_na s \<and> 0 < c \<and> c = count_of s (sites_on m series_data))
           \<and> (\<forall>s \<in> set (sites_on m series_data).
                 \<not> is_na s \<longrightarrow> (\<exists>s' \<in> fst ` set (counts v). key_eq s' s))
           \<and> percentages v
               = map (\<lambda>(s, c). (s, fl (py_round1 (fl (fl (of_nat c / of_nat (site_total v)) * 100)))))
                   (counts v)))"
proof (intro conjI allI impI)
  show "analyze_attack_site_preference fl series_data = analyze_plant_sites fl series_data"
    by (simp add: analyze_attack_site_preference_def analyze_plant_sites_def)
next
  fix view assume "analyze_plant_sites fl series_data = Inr view"
  then obtain pbm where
    g: "for_each add_series_plants series_data [] = Inr pbm" and
    l: "for_each (add_site_view fl) pbm [] = Inr view"
    by (auto simp add: analyze_plant_sites_def split: sum.splits)
  let ?R = "\<lambda>(m, sites) (m', v). m' = m \<and> value_counts sites = Inr (counts v)
          \<and> site_total v = length sites
          \<and> percentages v = map (\<lambda>(k, c). (k, percentage fl c (length sites))) (counts v)"
  have pbm: "pbm = foldl (\<lambda>d p. dd_append d (plant_map p) (plant_site p)) [] (all_plants series_data)"
    using for_each_add_series_plants_groups [OF g] .
  from grouping [of plant_map plant_site "all_plants series_data"] have
    dk: "distinct_keys (map fst pbm)" and
    grp: "\<forall>(m, ss) \<in> set pbm. ss = sites_on m series_data \<and> ss \<noteq> []" and
    cov: "\<forall>plant \<in> set (all_plants series_data). \<exists>m \<in> fst ` set pbm. key_eq m (plant_map plant)"
    unfolding pbm sites_on_def by simp_all
  from grp have ne: "\<forall>(m, sites) \<in> set pbm. sites \<noteq> []" by auto
  from for_each_add_site_view_entries [OF l _ ne] dk have all2: "list_all2 ?R pbm view"
    by simp
  have keys: "map fst view = map fst pbm"
    by (rule list_all2_same_keys [of "\<lambda>x y. ?R x y"]) (use all2 in \<open>simp add: case_prod_unfold\<close>)
  show "distinct_keys (map fst view)"
    using dk keys by simp
  show "\<forall>plant \<in> set (all_plants series_data). \<exists>m \<in> fst ` set view. key_eq m (plant_map plant)"
    using cov keys by (metis set_map)
  show "\<forall>(m, v) \<in> set view.
             site_total v = length (sites_on m series_data) \<and> 0 < site_total v
           \<and> distinct_keys (map fst (counts v))
           \<and> (\<forall>(s, c) \<in> set (counts v).
                 \<not> is_na s \<and> 0 < c \<and> c = count_of s (sites_on m series_data))
           \<and> (\<forall>s \<in> set (sites_on m series_data).
                 \<not> is_na s \<longrightarrow> (\<exists>s' \<in> fst ` set (counts v). key_eq s' s))
           \<and> percentages v
               = map (\<lambda>(s, c). (s, fl (py_round1 (fl (fl (of_nat c / of_nat (site_total v)) * 100)))))
                   (counts v)"
  proof (clarify)
    fix m v assume "(m, v) \<in> set view"
    from list_all2_right [OF all2 this] obtain sites where
      in_pbm: "(m, sites) \<in> set pbm" and
      vc: "value_counts sites = Inr (counts v)" and
      tot: "site_total v = length sites" and
      pct: "percentages v = map (\<lambda>(k, c). (k, percentage fl c (length sites))) (counts v)"
      by auto
    from grp in_pbm have sites: "sites = sites_on m series_data" "sites \<noteq> []"
      by auto
    from value_counts_counts [OF vc] sites(1) have
      c1: "distinct_keys (map fst (counts v))" and
      c2: "\<forall>(s, c) \<in> set (counts v). \<not> is_na s \<and> 0 < c \<and> c = count_of s (sites_on m series_data)" and
      c3: "\<forall>s \<in> set (sites_on m series_data). \<not> is_na s \<longrightarrow> (\<exists>s' \<in> fst ` set (counts v). key_eq s' s)"
      by simp_all
    have p: "percentages v
        = map (\<lambda>(s, c). (s, fl (py_round1 (fl (fl (of_nat c / of_nat (site_total v)) * 100)))))
            (counts v)"
      unfolding pct tot percentage_def ..
    from tot sites c1 c2 c3 p
    show "site_total v = length (sites_on m series_data) \<and> 0 < site_total v
           \<and> distinct_keys (map fst (counts v))
           \<and> (\<forall>(s, c) \<in> set (counts v).
                 \<not> is_na s \<and> 0 < c \<and> c = count_of s (sites_on m series_data))
           \<and> (\<forall>s \<in> set (sites_on m series_data).
                 \<not> is_na s \<longrightarrow> (\<exists>s' \<in> fst ` set (counts v). key_eq s' s))
           \<and> percentages v
               = map (\<lambda>(s, c). (s, fl (py_round1 (fl (fl (of_nat c / of_nat (site_total v)) * 100)))))
                   (counts v)"
      by simp
  qed
qed

theorem site_views_group_count_and_agree_witness:
  "analyze_plant_sites (\<lambda>x. x) [bind_bundle]
     = Inr [(PStr ''Bind'',
             \<lparr>counts = [(PStr ''A'', 2), (PStr ''B'', 1)],
              percentages = [(PStr ''A'', 667 / 10), (PStr ''B'', 333 / 10)],
              site_total = 3\<rparr>)]
   \<and> analyze_attack_site_preference (\<lambda>x. x) [bind_bundle]
     = Inr [(PStr ''Bind'',
             \<lparr>counts = [(PStr ''A'', 2), (PStr ''B'', 1)],
              percentages = [(PStr ''A'', 667 / 10), (PStr ''B'', 333 / 10)],
              site_total = 3\<rparr>)]
   \<and> sites_on (PStr ''Bind'') [bind_bundle] = [PStr ''A'', PStr ''A'', PStr ''B'']
   \<and> count_of (PStr ''A'') [PStr ''A'', PStr ''A'', PStr ''B''] = 2
   \<and> count_of (PStr ''B'') [PStr ''A'', PStr ''A'', PStr ''B''] = 1
   \<and> py_round1 (2 / 3 * 100) = 667 / 10 \<and> py_round1 (1 / 3 * 100) = 333 / 10"
proof -
  let ?view = "[(PStr ''Bind'',
             \<lparr>counts = [(PStr ''A'', 2 :: nat), (PStr ''B'', 1)],
              percentages = [(PStr ''A'', 667 / 10 :: rat), (PStr ''B'', 333 / 10)],
              site_total = 3 :: nat\<rparr>)]"
  have r: "analyze_plant_sites (\<lambda>x. x) [bind_bundle] = Inr ?view"
    by code_simp
  have s: "sites_on (PStr ''Bind'') [bind_bundle] = [PStr ''A'', PStr ''A'', PStr ''B'']"
    by code_simp
  note t = site_views_group_count_and_agree [of "\<lambda>x. x" "[bind_bundle]"]
  from t r have a: "analyze_attack_site_preference (\<lambda>x. x) [bind_bundle] = Inr ?view"
    by simp
  from t have "\<forall>view. analyze_plant_sites (\<lambda>x. x) [bind_bundle] = Inr view \<longrightarrow>
      (\<forall>(m, v) \<in> set view.
          (\<forall>(s, c) \<in> set (counts v). c = count_of s (sites_on m [bind_bundle]))
        \<and> percentages v
            = map (\<lambda>(s, c). (s, py_round1 (of_nat c / of_nat (site_total v) * 100))) (counts v))"
    by blast
  from this [rule_format, OF r] s have
    "count_of (PStr ''A'') [PStr ''A'', PStr ''A'', PStr ''B''] = 2"
    "count_of (PStr ''B'') [PStr ''A'', PStr ''A'', PStr ''B''] = 1"
    "py_round1 (2 / 3 * 100) = 667 / 10" "py_round1 (1 / 3 * 100) = 333 / 10"
    by simp_all
  with r a s show ?thesis by simp
qed


section \<open>Properties of the opening duels\<close>

lemma keys_add_first_kill: "map fst (add_first_kill st p) = see (map fst st) p"
  by (induction st p rule: add_first_kill.induct) (simp_all add: see_Cons, simp add: see_def)

lemma keys_add_first_death: "map fst (add_first_death st p) = see (map fst st) p"
  by (induction st p rule: add_first_death.induct) (simp_all add: see_Cons, simp add: see_def)

lemma keys_add_kill:
  assumes "add_kill st kill = Inr st'"
  shows "map fst st' = foldl see (map fst st) (kill_players kill)"
  using assms
  by (auto simp add: add_kill_def kill_players_def keys_add_first_kill keys_add_first_death
        split: sum.splits if_splits)

lemma keys_for_each_add_kill:
  assumes "for_each add_kill ks st = Inr st'"
  shows "map fst st' = foldl see (map fst st) (concat (map kill_players ks))"
  using assms
proof (induction ks arbitrary: st)
  case Nil
  then show ?case by simp
next
  case (Cons kill ks)
  from Cons.prems obtain st1 where
    a: "add_kill st kill = Inr st1" and b: "for_each add_kill ks st1 = Inr st'"
    by (auto split: sum.splits)
  from Cons.IH [OF b] keys_add_kill [OF a] show ?case by simp
qed

lemma keys_for_each_add_series_kills:
  assumes "for_each add_series_kills series_data st = Inr st'"
  shows "map fst st' = foldl see (map fst st) (concat (map kill_players (all_kills series_data)))"
  using assms
proof (induction series_data arbitrary: st)
  case Nil
  then show ?case by (simp add: all_kills_def)
next
  case (Cons series rest)
  from Cons.prems obtain st1 where
    a: "add_series_kills st series = Inr st1" and b: "for_each add_series_kills rest st1 = Inr st'"
    by (auto split: sum.splits)
  from a obtain kl ks where
    k: "series_kills series = Inr kl" "py_iter kl = Inr ks" and
    f: "for_each add_kill ks st = Inr st1"
    by (auto simp add: add_series_kills_def split: sum.splits)
  have "all_kills (series # rest) = ks @ all_kills rest"
    using k by (simp add: all_kills_def)
  with Cons.IH [OF b] keys_for_each_add_kill [OF f] show ?case by simp
qed

lemma set_foldl_see: "set (foldl see xs ps) \<subseteq> set xs \<union> set ps"
proof (induction ps arbitrary: xs)
  case Nil
  then show ?case by simp
next
  case (Cons p ps)
  from Cons.IH [of "see xs p"] set_see [of xs p] show ?case by auto
qed

lemma distinct_keys_foldl_see: "distinct_keys xs \<Longrightarrow> distinct_keys (foldl see xs ps)"
  by (induction ps arbitrary: xs) (simp_all add: distinct_keys_see)

lemma foldl_add_duel_entry:
  assumes "distinct_keys (map fst result @ map fst st)"
  shows "foldl add_duel_entry result st =
     result @ map (\<lambda>(p, k, d). (p, \<lparr>first_kills = k, first_deaths = d, net = int k - int d\<rparr>))
                (filter (\<lambda>(p, k, d). truthy p \<and> p \<noteq> PStr ''unknown'') st)"
  using assms
proof (induction st arbitrary: result)
  case Nil
  then show ?case by simp
next
  case (Cons x st)
  obtain p k d where x: "x = (p, k, d)" by (cases x)
  from Cons.prems have dk: "distinct_keys (map fst result @ p # map fst st)"
    by (simp add: x)
  show ?case
  proof (cases "truthy p \<and> p \<noteq> PStr ''unknown''")
    case True
    from dk have fresh: "\<forall>k' \<in> set (map fst result). \<not> key_eq k' p"
      by (auto simp add: distinct_keys_append)
    have step: "add_duel_entry result (p, k, d)
        = result @ [(p, \<lparr>first_kills = k, first_deaths = d, net = int k - int d\<rparr>)]"
      using True dict_set_fresh [OF fresh] by (simp add: add_duel_entry_def)
    have "distinct_keys (map fst (add_duel_entry result (p, k, d)) @ map fst st)"
      unfolding step using dk by simp
    from Cons.IH [OF this] show ?thesis
      unfolding x using True by (simp add: step)
  next
    case False
    then have step: "add_duel_entry result (p, k, d) = result"
      by (auto simp add: add_duel_entry_def)
    have "distinct_keys (map fst result @ map fst st)"
      using dk by (auto simp add: distinct_keys_append list_all_iff)
    from Cons.IH [OF this] show ?thesis
      unfolding x using False by (auto simp add: step)
  qed
qed

text \<open>
  C4: when the opening-duel table is computed, every entry has net = kills - deaths, the
  name \<^verbatim>\<open>"unknown"\<close> is not a key, the entries are in descending order of net, and
  entries of equal net are in the order in which their players were first met: the
  table is a stable reordering of the table \<open>U\<close> in accumulation order, whose keys are
  the first-encountered players other than \<^verbatim>\<open>"unknown"\<close>.
\<close>

theorem opening_duel_table:
  assumes "analyze_opening_duels series_data = Inr table"
  shows "(\<forall>(p, e) \<in> set table. net e = int (first_kills e) - int (first_deaths e))
     \<and> PStr ''unknown'' \<notin> fst ` set table
     \<and> sorted (map (\<lambda>x. - net (snd x)) table)
     \<and> (\<exists>U. map fst U = filter (\<lambda>p. p \<noteq> PStr ''unknown'') (first_encountered series_data)
            \<and> (\<forall>n. filter (\<lambda>x. net (snd x) = n) table = filter (\<lambda>x. net (snd x) = n) U))"
proof -
  let ?entry = "\<lambda>(p, k, d). (p, \<lparr>first_kills = k, first_deaths = d, net = int k - int d\<rparr>)"
  let ?keep = "\<lambda>(p :: pyval, k :: nat, d :: nat). truthy p \<and> p \<noteq> PStr ''unknown''"
  from assms obtain st where
    st: "for_each add_series_kills series_data [] = Inr st" and
    tbl: "table = sort_key (\<lambda>x. - net (snd x)) (foldl add_duel_entry [] st)"
    by (auto simp add: analyze_opening_duels_def split: sum.splits)
  have keys: "map fst st = first_encountered series_data"
    using keys_for_each_add_series_kills [OF st] by (simp add: first_encountered_def)
  have dk: "distinct_keys (map fst st)"
    unfolding keys first_encountered_def by (rule distinct_keys_foldl_see) simp
  define U where "U = map ?entry (filter ?keep st)"
  have U: "foldl add_duel_entry [] st = U"
    using foldl_add_duel_entry [of "[]" st] dk by (simp add: U_def)
  have tbl': "table = sort_key (\<lambda>x. - net (snd x)) U"
    using tbl U by simp
  have "\<forall>x \<in> set (concat (map kill_players (all_kills series_data))). truthy x"
    by (auto simp add: kill_players_def split: sum.splits if_splits)
  then have tr: "\<forall>x \<in> set (first_encountered series_data). truthy x"
    using set_foldl_see [of "[]" "concat (map kill_players (all_kills series_data))"]
    unfolding first_encountered_def by auto
  have "map fst U = filter (\<lambda>p. truthy p \<and> p \<noteq> PStr ''unknown'') (map fst st)"
    unfolding U_def by (induction st) auto
  also have "\<dots> = filter (\<lambda>p. p \<noteq> PStr ''unknown'') (first_encountered series_data)"
    unfolding keys using tr by (auto intro: filter_cong)
  finally have kU: "map fst U = filter (\<lambda>p. p \<noteq> PStr ''unknown'') (first_encountered series_data)" .
  have setT: "set table = set U"
    by (simp add: tbl')
  have c1: "\<forall>(p, e) \<in> set table. net e = int (first_kills e) - int (first_deaths e)"
    unfolding setT U_def by auto
  have c2: "PStr ''unknown'' \<notin> fst ` set table"
    unfolding setT U_def by auto
  have c3: "sorted (map (\<lambda>x. - net (snd x)) table)"
    unfolding tbl' by (rule sorted_sort_key)
  have c4: "\<forall>n. filter (\<lambda>x. net (snd x) = n) table = filter (\<lambda>x. net (snd x) = n) U"
  proof
    fix n
    have "filter (\<lambda>x. - net (snd x) = - n) (sort_key (\<lambda>x. - net (snd x)) U)
        = filter (\<lambda>x. - net (snd x) = - n) U"
      by (rule sort_key_stable)
    then show "filter (\<lambda>x. net (snd x) = n) table = filter (\<lambda>x. net (snd x) = n) U"
      by (simp add: tbl')
  qed
  from c1 c2 c3 kU c4 show ?thesis by blast
qed

theorem opening_duel_table_witness:
  "analyze_opening_duels [duel_bundle]
     = Inr [(PStr ''Z'', \<lparr>first_kills = 1, first_deaths = 0, net = 1\<rparr>),
            (PStr ''X'', \<lparr>first_kills = 1, first_deaths = 1, net = 0\<rparr>),
            (PStr ''Y'', \<lparr>first_kills = 1, first_deaths = 1, net = 0\<rparr>)]
   \<and> first_encountered [duel_bundle] = [PStr ''X'', PStr ''Y'', PStr ''Z'', PStr ''unknown'']
   \<and> PStr ''unknown'' \<notin> fst ` set [(PStr ''Z'', \<lparr>first_kills = 1, first_deaths = 0, net = 1\<rparr>),
            (PStr ''X'', \<lparr>first_kills = 1, first_deaths = 1, net = 0\<rparr>),
            (PStr ''Y'', \<lparr>first_kills = 1, first_deaths = 1, net = 0\<rparr>)]"
proof -
  have r: "analyze_opening_duels [duel_bundle]
     = Inr [(PStr ''Z'', \<lparr>first_kills = 1, first_deaths = 0, net = 1\<rparr>),
            (PStr ''X'', \<lparr>first_kills = 1, first_deaths = 1, net = 0\<rparr>),
            (PStr ''Y'', \<lparr>first_kills = 1, first_deaths = 1, net = 0\<rparr>)]"
    by code_simp
  have f: "first_encountered [duel_bundle] = [PStr ''X'', PStr ''Y'', PStr ''Z'', PStr ''unknown'']"
    by code_simp
  from opening_duel_table [OF r] r f show ?thesis by simp
qed

section \<open>Properties of the composition frequency\<close>

lemma dd_append_not_Nil: "dd_append d k v \<noteq> []"
  by (induction d k v rule: dd_append.induct) simp_all

lemma dd_append_entries:
  "list_all (\<lambda>(k, vs). vs \<noteq> []) d \<Longrightarrow> list_all (\<lambda>(k, vs). vs \<noteq> []) (dd_append d k v)"
  by (induction d k v rule: dd_append.induct) simp_all

lemma add_team_comp_grows:
  assumes "add_team_comp map_name acc item = Inr acc'"
  shows "(acc' \<noteq> [] \<longleftrightarrow> acc \<noteq> [] \<or> has_agents item)
     \<and> (list_all (\<lambda>(k, vs). vs \<noteq> []) acc \<longrightarrow> list_all (\<lambda>(k, vs). vs \<noteq> []) acc')"
  using assms
  by (cases item)
     (auto simp add: add_team_comp_def has_agents_def dd_append_not_Nil dd_append_entries
        split: sum.splits if_splits)

lemma for_each_add_team_comp:
  assumes "for_each (add_team_comp map_name) items acc = Inr acc'"
  shows "(acc' \<noteq> [] \<longleftrightarrow> acc \<noteq> [] \<or> list_ex has_agents items)
     \<and> (list_all (\<lambda>(k, vs). vs \<noteq> []) acc \<longrightarrow> list_all (\<lambda>(k, vs). vs \<noteq> []) acc')"
  using assms
proof (induction items arbitrary: acc)
  case Nil
  then show ?case by simp
next
  case (Cons item items)
  from Cons.prems obtain acc1 where
    a: "add_team_comp map_name acc item = Inr acc1" and
    b: "for_each (add_team_comp map_name) items acc1 = Inr acc'"
    by (auto split: sum.splits)
  from add_team_comp_grows [OF a] Cons.IH [OF b] show ?case by auto
qed

lemma add_map_comps_grows:
  assumes "add_map_comps comps acc map_info = Inr acc'"
  shows "(acc' \<noteq> [] \<longleftrightarrow>
            acc \<noteq> [] \<or> (case py_items comps of Inl e \<Rightarrow> False | Inr items \<Rightarrow> list_ex has_agents items))
     \<and> (list_all (\<lambda>(k, vs). vs \<noteq> []) acc \<longrightarrow> list_all (\<lambda>(k, vs). vs \<noteq> []) acc')"
  using assms for_each_add_team_comp
  by (auto simp add: add_map_comps_def split: sum.splits)

lemma for_each_add_map_comps:
  assumes "for_each (add_map_comps comps) infos acc = Inr acc'"
  shows "(acc' \<noteq> [] \<longleftrightarrow>
            acc \<noteq> [] \<or> (infos \<noteq> [] \<and>
              (case py_items comps of Inl e \<Rightarrow> False | Inr items \<Rightarrow> list_ex has_agents items)))
     \<and> (list_all (\<lambda>(k, vs). vs \<noteq> []) acc \<longrightarrow> list_all (\<lambda>(k, vs). vs \<noteq> []) acc')"
  using assms
proof (induction infos arbitrary: acc)
  case Nil
  then show ?case by simp
next
  case (Cons info infos)
  from Cons.prems obtain acc1 where
    a: "add_map_comps comps acc info = Inr acc1" and
    b: "for_each (add_map_comps comps) infos acc1 = Inr acc'"
    by (auto split: sum.splits)
  from add_map_comps_grows [OF a] Cons.IH [OF b] show ?case by auto
qed

lemma truthy_iter_not_Nil: "truthy v \<Longrightarrow> py_iter v = Inr xs \<Longrightarrow> xs \<noteq> []"
  by (cases v) auto

lemma add_series_comps_grows:
  assumes "add_series_comps acc series = Inr acc'"
  shows "(acc' \<noteq> [] \<longleftrightarrow> acc \<noteq> [] \<or> contributes series)
     \<and> (list_all (\<lambda>(k, vs). vs \<noteq> []) acc \<longrightarrow> list_all (\<lambda>(k, vs). vs \<noteq> []) acc')"
proof -
  from assms obtain end_state series_maps comps where
    g: "py_get series ''end_state'' (PDict []) = Inr end_state"
       "py_get end_state ''maps'' (PList []) = Inr series_maps"
       "py_get end_state ''comps'' (PDict []) = Inr comps"
    by (auto simp add: add_series_comps_def split: sum.splits)
  show ?thesis
  proof (cases "truthy series_maps \<and> truthy comps")
    case True
    with assms g obtain infos where
      i: "py_iter series_maps = Inr infos" and
      f: "for_each (add_map_comps comps) infos acc = Inr acc'"
      by (auto simp add: add_series_comps_def split: sum.splits)
    from True i have "infos \<noteq> []"
      using truthy_iter_not_Nil by blast
    with for_each_add_map_comps [OF f] g True show ?thesis
      by (simp add: contributes_def)
  next
    case False
    with assms g have same: "acc' = acc"
      by (auto simp add: add_series_comps_def)
    have "\<not> contributes series"
    proof (cases "truthy series_maps")
      case True
      with False have "\<not> truthy comps" by simp
      then have "(case py_items comps of Inl e \<Rightarrow> False | Inr items \<Rightarrow> list_ex has_agents items) = False"
        by (cases comps) simp_all
      with g show ?thesis by (simp add: contributes_def)
    next
      case False
      with g show ?thesis by (simp add: contributes_def)
    qed
    with same show ?thesis by simp
  qed
qed

lemma for_each_add_series_comps:
  assumes "for_each add_series_comps series_data acc = Inr acc'"
  shows "(acc' \<noteq> [] \<longleftrightarrow> acc \<noteq> [] \<or> list_ex contributes series_data)
     \<and> (list_all (\<lambda>(k, vs). vs \<noteq> []) acc \<longrightarrow> list_all (\<lambda>(k, vs). vs \<noteq> []) acc')"
  using assms
proof (induction series_data arbitrary: acc)
  case Nil
  then show ?case by simp
next
  case (Cons series rest)
  from Cons.prems obtain acc1 where
    a: "add_series_comps acc series = Inr acc1" and
    b: "for_each add_series_comps rest acc1 = Inr acc'"
    by (auto split: sum.splits)
  from add_series_comps_grows [OF a] Cons.IH [OF b] show ?case by auto
qed

lemma for_each_add_comp_view:
  assumes "for_each add_comp_view comps_by_map acc = Inr r"
    and "list_all (\<lambda>(k, vs). vs \<noteq> []) comps_by_map"
  shows "insufficient_data r \<longleftrightarrow> insufficient_data acc \<and> comps_by_map = []"
  using assms
proof (induction comps_by_map arbitrary: acc)
  case Nil
  then show ?case by simp
next
  case (Cons entry rest)
  from Cons.prems(1) obtain acc1 where
    a: "add_comp_view acc entry = Inr acc1" and
    b: "for_each add_comp_view rest acc1 = Inr r"
    by (auto split: sum.splits)
  from a Cons.prems(2) have "\<not> insufficient_data acc1"
    by (cases entry) (auto simp add: add_comp_view_def split: sum.splits)
  with Cons.IH [OF b] Cons.prems(2) show ?case by simp
qed

text \<open>
  C5: when the composition frequency is computed, its flag \<^verbatim>\<open>insufficient_data\<close> is true
  if and only if no match of the input has both a non-empty map list and a team with a
  non-empty agent list.
\<close>

theorem insufficient_data_iff_no_contribution:
  assumes "analyze_comp_frequency series_data = Inr r"
  shows "insufficient_data r \<longleftrightarrow> length (filter contributes series_data) = 0"
proof -
  from assms obtain comps_by_map where
    c: "for_each add_series_comps series_data [] = Inr comps_by_map" and
    v: "for_each add_comp_view comps_by_map \<lparr>by_map = [], insufficient_data = True\<rparr> = Inr r"
    by (auto simp add: analyze_comp_frequency_def split: sum.splits)
  from for_each_add_series_comps [OF c] have
    ne: "comps_by_map \<noteq> [] \<longleftrightarrow> list_ex contributes series_data" and
    en: "list_all (\<lambda>(k, vs). vs \<noteq> []) comps_by_map"
    by simp_all
  from for_each_add_comp_view [OF v en] have "insufficient_data r \<longleftrightarrow> comps_by_map = []"
    by simp
  with ne show ?thesis
    by (auto simp add: list_ex_iff filter_empty_conv)
qed

theorem insufficient_data_iff_no_contribution_witness:
  "analyze_comp_frequency [ascent_bundle, comp_bundle]
     = Inr \<lparr>by_map =
              [(PStr ''Ascent'', \<lparr>compositions = [(PStr ''Jett+Sova'', 2)], comp_total = 2\<rparr>),
               (PStr ''Bind'', \<lparr>compositions = [(PStr ''Jett+Sova'', 2)], comp_total = 2\<rparr>)],
            insufficient_data = False\<rparr>
   \<and> length (filter contributes [ascent_bundle, comp_bundle]) = 1
   \<and> analyze_comp_frequency [ascent_bundle] = Inr \<lparr>by_map = [], insufficient_data = True\<rparr>
   \<and> length (filter contributes [ascent_bundle]) = 0"
proof -
  have r1: "analyze_comp_frequency [ascent_bundle, comp_bundle]
     = Inr \<lparr>by_map =
              [(PStr ''Ascent'', \<lparr>compositions = [(PStr ''Jett+Sova'', 2)], comp_total = 2\<rparr>),
               (PStr ''Bind'', \<lparr>compositions = [(PStr ''Jett+Sova'', 2)], comp_total = 2\<rparr>)],
            insufficient_data = False\<rparr>"
    by code_simp
  have r2: "analyze_comp_frequency [ascent_bundle] = Inr \<lparr>by_map = [], insufficient_data = True\<rparr>"
    by code_simp
  have c: "contributes comp_bundle" "\<not> contributes ascent_bundle"
    by code_simp+
  from insufficient_data_iff_no_contribution [OF r1] insufficient_data_iff_no_contribution [OF r2] r1 r2 c
  show ?thesis by simp
qed

text \<open>
  The end-state parser enters a team into \<^verbatim>\<open>comps\<close> only with a truthy agent, so in a
  parsed end state every team has a non-empty agent list: there a match contributes as
  soon as its map list and its \<^verbatim>\<open>comps\<close> are non-empty.
\<close>

lemma add_player_entries:
  assumes "add_player acc player = Inr acc'" and "list_all (\<lambda>(k, vs). vs \<noteq> []) (snd acc)"
  shows "list_all (\<lambda>(k, vs). vs \<noteq> []) (snd acc')"
  using assms
  by (cases acc)
     (auto simp add: add_player_def Let_def dd_append_entries split: sum.splits if_splits)

lemma for_each_add_player_entries:
  assumes "for_each add_player players acc = Inr acc'" and "list_all (\<lambda>(k, vs). vs \<noteq> []) (snd acc)"
  shows "list_all (\<lambda>(k, vs). vs \<noteq> []) (snd acc')"
  using assms
proof (induction players arbitrary: acc)
  case Nil
  then show ?case by simp
next
  case (Cons player players)
  from Cons.prems(1) obtain acc1 where
    a: "add_player acc player = Inr acc1" and b: "for_each add_player players acc1 = Inr acc'"
    by (auto split: sum.splits)
  from Cons.IH [OF b add_player_entries [OF a Cons.prems(2)]] show ?case .
qed

lemma has_agents_entry: "has_agents (team, PDict [(PStr ''agents'', PList agents)]) \<longleftrightarrow> agents \<noteq> []"
  by (simp add: has_agents_def dict_get_def key_eq_def)

lemma parsed_comps_have_agents:
  assumes "py_get (parse_end_state loads content) ''comps'' (PDict []) = Inr comps"
  shows "comps = PList [] \<or> (\<exists>items. comps = PDict items \<and> list_all has_agents items)"
proof (cases "parse_end_state loads content = empty_end_state")
  case True
  with assms show ?thesis
    by (simp add: empty_end_state_def dict_get_def key_eq_def)
next
  case False
  then obtain data r where r: "end_state_fields data = Inr r" "parse_end_state loads content = r"
    by (auto simp add: parse_end_state_def split: option.splits sum.splits)
  from r(1) obtain map_list players cs where
    shape: "r = PDict
          [(PStr ''maps'', map_list),
           (PStr ''comps'', PDict (map (\<lambda>(team, agents). (team, PDict [(PStr ''agents'', PList agents)])) cs)),
           (PStr ''players'', PList players),
           (PStr ''raw_data'', data)]" and
    src: "(players, cs) = ([], []) \<or> (\<exists>player_list. for_each add_player player_list ([], []) = Inr (players, cs))"
    by (auto simp add: end_state_fields_def split: sum.splits if_splits prod.splits)
  from src have "list_all (\<lambda>(k, vs). vs \<noteq> []) cs"
    using for_each_add_player_entries [of _ "([], [])" "(players, cs)"] by auto
  then have "list_all has_agents (map (\<lambda>(team, agents). (team, PDict [(PStr ''agents'', PList agents)])) cs)"
    by (induction cs) (auto simp add: has_agents_entry)
  with assms r(2) shape show ?thesis
    by (auto simp add: dict_get_def key_eq_def)
qed

section \<open>Properties of the report summary\<close>

lemma max_by_count_is_max:
  "max_by_count best xs \<in> set (best # xs)
   \<and> (\<forall>x \<in> set (best # xs). snd x \<le> snd (max_by_count best xs))"
proof (induction xs arbitrary: best)
  case Nil
  then show ?case by simp
next
  case (Cons x xs)
  from Cons.IH [of "if snd best < snd x then x else best"] show ?case
    by (auto split: if_splits)
qed

text \<open>
  C8, as stated, fails: the summary takes the first map of the view in the view's own
  order, which is the order in which the maps were first met, not the alphabetical one.
  In this view Ascent is the lexicographically first map, and the summary shows the
  primary site of Bind.
\<close>

theorem summary_shows_first_inserted_map:
  "sort (map fst bind_first_view) = [''Ascent'', ''Bind'']
   \<and> section_summary no_maps_played bind_first_view []
       = [''## TL;DR - Key Takeaways'', '''', ''- **Primary site (Bind):** A'', '''']"
  by code_simp

text \<open>
  C8, amended: for every attack-site-preference view whose first map, in the view's own
  order, has at least one site count, the summary shows for that map a site whose count
  is the highest of the map.
\<close>

theorem summary_primary_site:
  assumes "attack_site_preference = (map_name, data) # rest" and "counts data \<noteq> []"
  shows "\<exists>site n. (site, n) \<in> set (counts data)
     \<and> (\<forall>(s, m) \<in> set (counts data). m \<le> n)
     \<and> (''- **Primary site ('' @ map_name @ ''):** '' @ site)
          \<in> set (section_summary maps_played attack_site_preference opening_duels)"
proof -
  from assms(2) obtain c cs where cs: "counts data = c # cs"
    by (cases "counts data") auto
  obtain site n where best: "max_by_count c cs = (site, n)"
    by (cases "max_by_count c cs")
  from max_by_count_is_max [of c cs] best cs have
    mem: "(site, n) \<in> set (counts data)" and
    top: "\<forall>(s, m) \<in> set (counts data). m \<le> n"
    by auto
  have "(''- **Primary site ('' @ map_name @ ''):** '' @ site)
          \<in> set (section_summary maps_played attack_site_preference opening_duels)"
    by (simp add: section_summary_def Let_def assms(1) primary_site_line_def cs best
          split: list.splits)
  with mem top show ?thesis by blast
qed

theorem summary_primary_site_witness:
  "bind_first_view = (''Bind'', snd (hd bind_first_view)) # tl bind_first_view
   \<and> counts (snd (hd bind_first_view)) = [(''A'', 2), (''B'', 1)]
   \<and> ''- **Primary site (Bind):** A'' \<in> set (section_summary no_maps_played bind_first_view [])"
proof -
  have v: "bind_first_view = (''Bind'', snd (hd bind_first_view)) # tl bind_first_view"
    by (simp add: bind_first_view_def)
  have c: "counts (snd (hd bind_first_view)) = [(''A'', 2), (''B'', 1)]"
    by (simp add: bind_first_view_def)
  then have ne: "counts (snd (hd bind_first_view)) \<noteq> []"
    by simp
  from summary_primary_site [OF v ne, of no_maps_played "[]"] obtain site n where
    m: "(site, n) \<in> set (counts (snd (hd bind_first_view)))" and
    t: "\<forall>(s, k) \<in> set (counts (snd (hd bind_first_view))). k \<le> n" and
    l: "(''- **Primary site ('' @ ''Bind'' @ ''):** '' @ site)
          \<in> set (section_summary no_maps_played bind_first_view [])"
    by blast
  from m t have "site = ''A''"
    unfolding c by auto
  with l v c show ?thesis by simp
qed

section \<open>Determinism of the aggregation engine\<close>


section \<open>Percentages of the site views\<close>

lemma null_site_bundle_sites:
  "for_each add_series_plants [null_site_bundle] [] = Inr [(PStr ''Bind'', [PStr ''A'', PNone])]"
  by code_simp

lemma null_site_counts: "value_counts [PStr ''A'', PNone] = Inr [(PStr ''A'', 1)]"
  by code_simp

lemma half_is_50: "percentage (\<lambda>x. x) 1 2 = 50"
  by code_simp

text \<open>
  C6 does not hold of the code. \<^verbatim>\<open>value_counts\<close> leaves null sites out of the counts,
  while \<^verbatim>\<open>total = len(sites)\<close> counts them, and a null site reaches the view because the
  parser passes a null \<^verbatim>\<open>"site"\<close> field on. Two plants on Bind, one at A and one with a
  null site, give the single percentage \<^verbatim>\<open>round(1 / 2 * 100, 1)\<close>, which is 50 (all three
  float operations are exact here).
\<close>

theorem null_site_percentages_sum_to_50:
  "analyze_plant_sites fl [null_site_bundle]
     = Inr [(PStr ''Bind'',
             \<lparr>counts = [(PStr ''A'', 1)],
              percentages = [(PStr ''A'', percentage fl 1 2)],
              site_total = 2\<rparr>)]
   \<and> sum_list (map snd [(PStr ''A'', percentage (\<lambda>x. x) 1 2)]) = 50"
proof
  show "analyze_plant_sites fl [null_site_bundle]
     = Inr [(PStr ''Bind'',
             \<lparr>counts = [(PStr ''A'', 1)],
              percentages = [(PStr ''A'', percentage fl 1 2)],
              site_total = 2\<rparr>)]"
    unfolding analyze_plant_sites_def null_site_bundle_sites
    by (simp add: add_site_view_def null_site_counts numeral_2_eq_2)
  show "sum_list (map snd [(PStr ''A'', percentage (\<lambda>x. x) 1 2)]) = 50"
    unfolding half_is_50 by simp
qed

text \<open>
  Where every plant of a map has a site that is counted, the claim does hold, for exact
  arithmetic and for any float format that rounds the values between 0 and 101 with an
  absolute error of at most \<open>2\<^sup>-\<^sup>4\<^sup>0\<close>, as binary64 does: each percentage is within 0.1 of
  its exact share, and the shares sum to 100.
\<close>

lemma round_half_even_error: "\<bar>of_int (round_half_even x) - x\<bar> \<le> 1 / 2"
proof -
  have "of_int \<lfloor>x\<rfloor> \<le> x" "x < of_int \<lfloor>x\<rfloor> + 1"
    by linarith+
  then show ?thesis
    by (auto simp add: round_half_even_def Let_def)
qed

lemma round_half_even_nonneg: "0 \<le> x \<Longrightarrow> 0 \<le> round_half_even x"
  by (auto simp add: round_half_even_def Let_def)

lemma py_round1_error: "\<bar>py_round1 x - x\<bar> \<le> 1 / 20"
proof -
  have "\<bar>of_int (round_half_even (x * 10)) - x * 10\<bar> \<le> 1 / 2"
    by (rule round_half_even_error)
  then show ?thesis
    by (simp add: py_round1_def) (simp add: abs_if field_simps split: if_splits)
qed

lemma py_round1_nonneg: "0 \<le> x \<Longrightarrow> 0 \<le> py_round1 x"
  using round_half_even_nonneg [of "x * 10"] by (simp add: py_round1_def)

lemma percentage_error:
  assumes fl: "\<forall>x. 0 \<le> x \<and> x \<le> 101 \<longrightarrow> 0 \<le> fl x \<and> \<bar>fl x - x\<bar> \<le> 1 / 2 ^ 40"
    and cn: "c \<le> n" "0 < n"
  shows "\<bar>percentage fl c n - 100 * of_nat c / of_nat n\<bar> \<le> 1 / 10"
proof -
  define q :: rat where "q = of_nat c / of_nat n"
  define a where "a = fl q"
  define b where "b = fl (a * 100)"
  define r where "r = py_round1 b"
  define e :: rat where "e = 1 / 2 ^ 40"
  have e: "0 < e" "e \<le> 1 / 1000000"
    by (simp_all add: e_def)
  have q: "0 \<le> q" "q \<le> 1"
    using cn by (simp_all add: q_def)
  from fl q have a: "0 \<le> a" "\<bar>a - q\<bar> \<le> e"
    unfolding a_def e_def by auto
  from a q e have a100: "0 \<le> a * 100" "a * 100 \<le> 101"
    by (auto simp add: abs_if split: if_splits)
  from fl a100 have b: "0 \<le> b" "\<bar>b - a * 100\<bar> \<le> e"
    unfolding b_def e_def by auto
  have r: "0 \<le> r" "\<bar>r - b\<bar> \<le> 1 / 20"
    unfolding r_def using b py_round1_nonneg py_round1_error by auto
  from a b r q e have r101: "r \<le> 101"
    by (auto simp add: abs_if split: if_splits)
  from fl r r101 have p: "\<bar>fl r - r\<bar> \<le> e"
    unfolding e_def by auto
  have "percentage fl c n = fl r"
    by (simp add: percentage_def r_def b_def a_def q_def)
  moreover have "100 * of_nat c / of_nat n = 100 * q"
    by (simp add: q_def)
  moreover from a b r p e have "\<bar>fl r - 100 * q\<bar> \<le> 1 / 10"
    by (auto simp add: abs_if split: if_splits)
  ultimately show ?thesis by simp
qed

lemma set_dict_set: "(k', v') \<in> set (dict_set d k v) \<Longrightarrow> v' = v \<or> (k', v') \<in> set d"
  by (induction d k v rule: dict_set.induct) (auto split: if_splits)

lemma for_each_add_site_view:
  assumes "for_each (add_site_view fl) plants_by_map result = Inr view" and "(m, v) \<in> set view"
  shows "(m, v) \<in> set result
     \<or> (0 < site_total v
        \<and> percentages v = map (\<lambda>(k, c). (k, percentage fl c (site_total v))) (counts v))"
  using assms
proof (induction plants_by_map arbitrary: result)
  case Nil
  then show ?case by simp
next
  case (Cons entry rest)
  from Cons.prems(1) obtain result1 where
    a: "add_site_view fl result entry = Inr result1" and
    b: "for_each (add_site_view fl) rest result1 = Inr view"
    by (auto split: sum.splits)
  from Cons.IH [OF b Cons.prems(2)] show ?case
  proof
    assume "(m, v) \<in> set result1"
    with a show ?thesis
      by (cases entry) (auto simp add: add_site_view_def split: if_splits sum.splits dest!: set_dict_set)
  next
    assume "0 < site_total v
        \<and> percentages v = map (\<lambda>(k, c). (k, percentage fl c (site_total v))) (counts v)"
    then show ?thesis by simp
  qed
qed

lemma sum_list_abs_bound:
  fixes f g :: "'a \<Rightarrow> rat"
  assumes "\<forall>x \<in> set xs. \<bar>f x - g x\<bar> \<le> d"
  shows "\<bar>sum_list (map f xs) - sum_list (map g xs)\<bar> \<le> of_nat (length xs) * d"
  using assms
proof (induction xs)
  case Nil
  then show ?case by simp
next
  case (Cons x xs)
  then have "\<bar>f x - g x\<bar> \<le> d" "\<bar>sum_list (map f xs) - sum_list (map g xs)\<bar> \<le> of_nat (length xs) * d"
    by simp_all
  then show ?case
    by (simp add: algebra_simps abs_if split: if_splits)
qed

lemma sum_list_shares:
  "sum_list (map (\<lambda>kc. 100 * of_nat (snd kc) / (N :: rat)) xs) = 100 * of_nat (sum_list (map snd xs)) / N"
  by (induction xs) (simp_all add: add_divide_distrib distrib_left)

lemma le_sum_list_nat: "(x :: nat) \<in> set xs \<Longrightarrow> x \<le> sum_list xs"
  by (induction xs) auto

lemma site_percentages_sum:
  assumes fl: "\<forall>x. 0 \<le> x \<and> x \<le> 101 \<longrightarrow> 0 \<le> fl x \<and> \<bar>fl x - x\<bar> \<le> 1 / 2 ^ 40"
    and view: "analyze_plant_sites fl series_data = Inr view" "(m, v) \<in> set view"
    and all_counted: "sum_list (map snd (counts v)) = site_total v"
  shows "\<bar>sum_list (map snd (percentages v)) - 100\<bar> \<le> of_nat (length (counts v)) / 10"
proof -
  from view obtain plants_by_map where
    "for_each (add_site_view fl) plants_by_map [] = Inr view"
    by (auto simp add: analyze_plant_sites_def split: sum.splits)
  from for_each_add_site_view [OF this view(2)] have
    n: "0 < site_total v" and
    p: "percentages v = map (\<lambda>(k, c). (k, percentage fl c (site_total v))) (counts v)"
    by simp_all
  let ?n = "site_total v"
  let ?f = "\<lambda>kc :: pyval \<times> nat. percentage fl (snd kc) ?n"
  let ?g = "\<lambda>kc :: pyval \<times> nat. 100 * of_nat (snd kc) / (of_nat ?n :: rat)"
  have each: "\<forall>kc \<in> set (counts v). \<bar>?f kc - ?g kc\<bar> \<le> 1 / 10"
  proof
    fix kc assume "kc \<in> set (counts v)"
    then have "snd kc \<le> ?n"
      using le_sum_list_nat [of "snd kc" "map snd (counts v)"] all_counted by auto
    from percentage_error [OF fl this n] show "\<bar>?f kc - ?g kc\<bar> \<le> 1 / 10" .
  qed
  have lhs: "sum_list (map snd (percentages v)) = sum_list (map ?f (counts v))"
    unfolding p by (simp add: comp_def case_prod_unfold)
  have "sum_list (map ?g (counts v)) = 100 * of_nat (sum_list (map snd (counts v))) / of_nat ?n"
    by (rule sum_list_shares)
  also have "\<dots> = 100"
    using n all_counted by simp
  finally have rhs: "sum_list (map ?g (counts v)) = 100" .
  from sum_list_abs_bound [of "counts v" ?f ?g "1 / 10"] each lhs rhs show ?thesis
    by simp
qed

end
